theory Spec2Isabelle
  imports Main "HOL-Library.Word" "HOL-Library.AList"
begin

section \<open>The XRAW voxel-volume codec (xraw\_parser\_writer.py)\<close>

text \<open>
  The module has two classes: \<open>XRawVolumeParser\<close>, which reads an open binary file
  field by field, and \<open>XRawVolumeWriter\<close>, which serialises two numpy arrays. Both are
  embedded below as state transformers that either return a value or raise a Python
  exception; the object state (the attributes and the open file) is threaded through
  and is kept when an exception is raised, as it is in Python.
\<close>

subsection \<open>Python values, exceptions and the exception-state monad\<close>

type_synonym byte = "8 word"

text \<open>
  The exceptions the module and the library calls it makes can raise.
  \<open>UnicodeDecodeError\<close> is a subclass of \<open>ValueError\<close> in Python; \<open>struct.error\<close>,
  \<open>IndexError\<close>, \<open>TypeError\<close> and \<open>OverflowError\<close> are not.
\<close>

datatype pyerror =
    ValueError string
  | UnicodeDecodeError
  | StructError
  | IndexError
  | TypeError
  | OverflowError

fun is_ValueError :: "pyerror \<Rightarrow> bool" where
  "is_ValueError (ValueError msg) = True"
| "is_ValueError UnicodeDecodeError = True"
| "is_ValueError e = False"

type_synonym ('s, 'a) exn_state = "'s \<Rightarrow> (pyerror + 'a) \<times> 's"

definition return :: "'a \<Rightarrow> ('s, 'a) exn_state" where
  "return a s = (Inr a, s)"

definition raise :: "pyerror \<Rightarrow> ('s, 'a) exn_state" where
  "raise e s = (Inl e, s)"

definition seq :: "('s, 'a) exn_state \<Rightarrow> ('a \<Rightarrow> ('s, 'b) exn_state) \<Rightarrow> ('s, 'b) exn_state" where
  "seq m f s = (case m s of (Inl e, s') \<Rightarrow> (Inl e, s') | (Inr a, s') \<Rightarrow> f a s')"

definition modify :: "('s \<Rightarrow> 's) \<Rightarrow> ('s, unit) exn_state" where
  "modify f s = (Inr (), f s)"

text \<open>\<open>for i in xs: body(i)\<close>: the body runs for each element in turn and an exception
  leaves the loop at once.\<close>

fun for_loop :: "'i list \<Rightarrow> ('i \<Rightarrow> ('s, unit) exn_state) \<Rightarrow> ('s, unit) exn_state" where
  "for_loop [] body s = (Inr (), s)"
| "for_loop (i # is) body s =
     (case body i s of (Inl e, s') \<Rightarrow> (Inl e, s') | (Inr u, s') \<Rightarrow> for_loop is body s')"

text \<open>\<open>range(n)\<close> for a Python integer: empty when \<open>n \<le> 0\<close>.\<close>

definition py_range :: "int \<Rightarrow> nat list" where
  "py_range n = [0..<nat n]"

subsection \<open>Bytes, integers and struct\<close>

text \<open>\<open>int.from_bytes(bs, byteorder='little')\<close>: any length is accepted, the empty
  byte string decodes to 0.\<close>

fun int_from_bytes :: "byte list \<Rightarrow> int" where
  "int_from_bytes [] = 0"
| "int_from_bytes (b # bs) = uint b + 256 * int_from_bytes bs"

text \<open>\<open>n.to_bytes(k, 'little', signed=False)\<close> raises \<open>OverflowError\<close> when \<open>n\<close> is
  negative or needs more than \<open>k\<close> bytes.\<close>

fun le_bytes :: "nat \<Rightarrow> int \<Rightarrow> byte list" where
  "le_bytes 0 n = []"
| "le_bytes (Suc k) n = word_of_int (n mod 256) # le_bytes k (n div 256)"

definition int_to_bytes :: "nat \<Rightarrow> int \<Rightarrow> pyerror + byte list" where
  "int_to_bytes k n = (if 0 \<le> n \<and> n < 256 ^ k then Inr (le_bytes k n) else Inl OverflowError)"

text \<open>
  Numbers as the module meets them: a Python or numpy integer, and the two kinds of
  float64 that the parser's arrays hold. \<open>F64_of_int v\<close> is the float64 whose value is the
  integer \<open>v\<close> (only integers that float64 represents exactly are built, see
  \<open>float64_of_int\<close>); \<open>F64_of_f32 w\<close> is the float64 equal to the IEEE binary32 number
  with bit pattern \<open>w\<close>, which is kept as its bit pattern.
\<close>

datatype scalar = PyInt int | F64_of_int int | F64_of_f32 "32 word"

text \<open>The number of binary digits of a non-negative integer.\<close>

function bit_length :: "int \<Rightarrow> nat" where
  "bit_length n = (if n \<le> 0 then 0 else Suc (bit_length (n div 2)))"
  by pat_completeness auto
termination
  by (relation "measure nat") auto

declare bit_length.simps [simp del]

text \<open>
  Storing a Python integer in a float64 array rounds it to 53 significant bits, ties
  to even. Integers below \<open>2^53\<close> in magnitude are stored exactly.
\<close>

definition float64_of_int :: "int \<Rightarrow> scalar" where
  "float64_of_int v =
     (if \<bar>v\<bar> < 2 ^ 53 then F64_of_int v
      else let e = bit_length \<bar>v\<bar> - 53;
               q = \<bar>v\<bar> div 2 ^ e;
               r = \<bar>v\<bar> mod 2 ^ e;
               q' = (if 2 * r > 2 ^ e \<or> (2 * r = 2 ^ e \<and> odd q) then q + 1 else q)
           in F64_of_int (sgn v * q' * 2 ^ e))"

text \<open>
  The assignment of a Python integer to an element of a float64 array converts it to
  a float, which raises \<open>OverflowError\<close> when the integer rounds to \<open>2^1024\<close> or beyond.
\<close>

definition store_float64 :: "int \<Rightarrow> pyerror + scalar" where
  "store_float64 v =
     (if \<bar>v\<bar> < 2 ^ 1024 - 2 ^ 970 then Inr (float64_of_int v) else Inl OverflowError)"

text \<open>
  \<open>struct.unpack(fmt, bs)[0]\<close> for the formats the module uses. The buffer must have
  exactly the size of the format (1 byte for \<open>b\<close>, 4 bytes for \<open>I\<close>, \<open>i\<close> and \<open>f\<close>), otherwise
  \<open>struct.error\<close> is raised. The module gives no byte-order prefix, so struct uses the
  machine's order; the model fixes little-endian, the order of the file format.
\<close>

definition unpack_b :: "byte list \<Rightarrow> pyerror + int" where
  "unpack_b bs = (case bs of [b] \<Rightarrow> Inr (sint b) | _ \<Rightarrow> Inl StructError)"

definition unpack_I :: "byte list \<Rightarrow> pyerror + int" where
  "unpack_I bs = (if length bs = 4 then Inr (int_from_bytes bs) else Inl StructError)"

definition unpack_i :: "byte list \<Rightarrow> pyerror + int" where
  "unpack_i bs =
     (if length bs = 4
      then Inr (let v = int_from_bytes bs in if v < 2 ^ 31 then v else v - 2 ^ 32)
      else Inl StructError)"

definition unpack_f :: "byte list \<Rightarrow> pyerror + 32 word" where
  "unpack_f bs = (if length bs = 4 then Inr (word_of_int (int_from_bytes bs)) else Inl StructError)"

text \<open>The value \<open>struct.unpack\<close> returns for a channel, as it is after the assignment
  into the float64 palette array.\<close>

definition unpack_channel :: "char \<Rightarrow> byte list \<Rightarrow> pyerror + scalar" where
  "unpack_channel fmt bs =
     (if fmt = CHR ''I'' then map_sum id float64_of_int (unpack_I bs)
      else if fmt = CHR ''i'' then map_sum id float64_of_int (unpack_i bs)
      else map_sum id F64_of_f32 (unpack_f bs))"

text \<open>
  \<open>bytes.decode('utf-8')\<close> in strict mode, on the byte values: the code points of the
  text, or \<open>None\<close> where Python raises \<open>UnicodeDecodeError\<close> (a stray continuation byte,
  an overlong form, a surrogate, a value above U+10FFFF or a sequence cut short).
\<close>

definition is_cont :: "nat \<Rightarrow> bool" where
  "is_cont b = (128 \<le> b \<and> b \<le> 191)"

fun utf8_decode :: "nat list \<Rightarrow> nat list option" where
  "utf8_decode [] = Some []"
| "utf8_decode (b0 # bs) =
     (if b0 < 128 then map_option ((#) b0) (utf8_decode bs)
      else if 194 \<le> b0 \<and> b0 \<le> 223 then
        (case bs of
           b1 # r \<Rightarrow>
             if is_cont b1
             then map_option ((#) ((b0 - 192) * 64 + (b1 - 128))) (utf8_decode r)
             else None
         | _ \<Rightarrow> None)
      else if 224 \<le> b0 \<and> b0 \<le> 239 then
        (case bs of
           b1 # b2 # r \<Rightarrow>
             if is_cont b1 \<and> is_cont b2 \<and> (b0 = 224 \<longrightarrow> 160 \<le> b1) \<and> (b0 = 237 \<longrightarrow> b1 \<le> 159)
             then map_option ((#) ((b0 - 224) * 4096 + (b1 - 128) * 64 + (b2 - 128)))
                    (utf8_decode r)
             else None
         | _ \<Rightarrow> None)
      else if 240 \<le> b0 \<and> b0 \<le> 244 then
        (case bs of
           b1 # b2 # b3 # r \<Rightarrow>
             if is_cont b1 \<and> is_cont b2 \<and> is_cont b3
                \<and> (b0 = 240 \<longrightarrow> 144 \<le> b1) \<and> (b0 = 244 \<longrightarrow> b1 \<le> 143)
             then map_option
                    ((#) ((b0 - 240) * 262144 + (b1 - 128) * 4096 + (b2 - 128) * 64 + (b3 - 128)))
                    (utf8_decode r)
             else None
         | _ \<Rightarrow> None)
      else None)"

definition bytes_decode :: "byte list \<Rightarrow> pyerror + nat list" where
  "bytes_decode bs =
     (case utf8_decode (map unat bs) of None \<Rightarrow> Inl UnicodeDecodeError | Some cps \<Rightarrow> Inr cps)"

text \<open>A Python \<open>str\<close> literal of ASCII characters as its code points, and its UTF-8
  encoding.\<close>

definition py_str :: "string \<Rightarrow> nat list" where
  "py_str s = map of_char s"

definition str_encode :: "string \<Rightarrow> byte list" where
  "str_encode s = map of_char s"

subsection \<open>numpy arrays\<close>

text \<open>
  An \<open>ndarray\<close> is its shape and its elements in row-major (C) order, the layout of
  every array the module builds: the element at index \<open>[i0][i1]...\<close> of an array of
  shape \<open>[n0, n1, ...]\<close> is at offset \<open>flat_index\<close>.
\<close>

record ndarray =
  shape :: "nat list"
  items :: "scalar list"

datatype pyitem = Item scalar | SubArray ndarray

fun flat_index :: "nat list \<Rightarrow> nat list \<Rightarrow> nat" where
  "flat_index (n # ns) (i # is) = i * prod_list ns + flat_index ns is"
| "flat_index ns is = 0"

definition in_bounds :: "nat list \<Rightarrow> nat list \<Rightarrow> bool" where
  "in_bounds ns is = (length is \<le> length ns \<and> list_all2 (<) is (take (length is) ns))"

text \<open>\<open>a[i0][i1]...\<close>: an index out of range (or one index too many) raises
  \<open>IndexError\<close>; with fewer indices than dimensions the result is a sub-array.\<close>

definition array_get :: "ndarray \<Rightarrow> nat list \<Rightarrow> pyerror + pyitem" where
  "array_get a is =
     (if \<not> in_bounds (shape a) is then Inl IndexError
      else let rest = drop (length is) (shape a);
               off = flat_index (shape a) is * prod_list rest
           in if rest = [] then Inr (Item (items a ! off))
              else Inr (SubArray \<lparr>shape = rest, items = take (prod_list rest) (drop off (items a))\<rparr>))"

text \<open>\<open>a[i0][i1]... = v\<close> with one index for each dimension.\<close>

definition array_set :: "ndarray \<Rightarrow> nat list \<Rightarrow> scalar \<Rightarrow> pyerror + ndarray" where
  "array_set a is v =
     (if length is = length (shape a) \<and> in_bounds (shape a) is
      then Inr (a\<lparr>items := (items a)[flat_index (shape a) is := v]\<rparr>)
      else Inl IndexError)"

text \<open>\<open>np.zeros(dims)\<close>: a float64 array of zeros. numpy walks the dimensions in order,
  starting from the item size of 8 bytes: a dimension 0 is skipped, a negative one raises
  \<open>ValueError\<close>, and any other is multiplied into the byte count, which raises \<open>ValueError\<close> as
  soon as it no longer fits a signed 64-bit size. (Running out of memory, which depends on the
  machine, is not modelled.)\<close>

definition zeros :: "nat list \<Rightarrow> ndarray" where
  "zeros dims = \<lparr>shape = dims, items = replicate (prod_list dims) (F64_of_int 0)\<rparr>"

fun nbytes_of :: "int list \<Rightarrow> int \<Rightarrow> pyerror + int" where
  "nbytes_of [] nbytes = Inr nbytes"
| "nbytes_of (d # ds) nbytes =
     (if d = 0 then nbytes_of ds nbytes
      else if d < 0 then Inl (ValueError ''negative dimensions are not allowed'')
      else if 2 ^ 63 - 1 < nbytes * d
      then Inl (ValueError ''array is too big; `arr.size * arr.dtype.itemsize` is larger than the maximum possible size.'')
      else nbytes_of ds (nbytes * d))"

definition np_zeros :: "int list \<Rightarrow> pyerror + ndarray" where
  "np_zeros dims =
     (case nbytes_of dims 8 of
        Inl e \<Rightarrow> Inl e
      | Inr nbytes \<Rightarrow> Inr (zeros (map nat dims)))"

text \<open>\<open>np.full(dims, v)\<close> for natural dimensions and an integer fill value.\<close>

definition np_full :: "nat list \<Rightarrow> int \<Rightarrow> ndarray" where
  "np_full dims v = \<lparr>shape = dims, items = replicate (prod_list dims) (PyInt v)\<rparr>"

text \<open>Nested Python lists (of numbers), and \<open>ndarray.tolist()\<close>.\<close>

datatype pylist = Leaf scalar | Lst "pylist list"

text \<open>\<open>l[i0][i1]...\<close> on nested lists: an index out of range raises \<open>IndexError\<close>, and a
  number cannot be indexed (\<open>TypeError\<close>).\<close>

fun pylist_get :: "pylist \<Rightarrow> nat list \<Rightarrow> pyerror + pylist" where
  "pylist_get l [] = Inr l"
| "pylist_get (Lst xs) (i # is) =
     (if i < length xs then pylist_get (xs ! i) is else Inl IndexError)"
| "pylist_get (Leaf v) (i # is) = Inl TypeError"

fun unflatten :: "nat list \<Rightarrow> scalar list \<Rightarrow> pylist" where
  "unflatten [] xs = (case xs of [] \<Rightarrow> Lst [] | x # r \<Rightarrow> Leaf x)"
| "unflatten (n # ns) xs =
     Lst (map (\<lambda>i. unflatten ns (take (prod_list ns) (drop (i * prod_list ns) xs))) [0..<n])"

definition tolist :: "ndarray \<Rightarrow> pylist" where
  "tolist a = unflatten (shape a) (items a)"

subsection \<open>XRawVolumeParser\<close>

text \<open>
  The open file: the bytes from the current position to the end, and how many times
  \<open>read\<close> has been called on it. \<open>read(n)\<close> returns at most \<open>n\<close> bytes, fewer at the end of
  the file and none after it; \<open>read(-1)\<close> returns everything that is left, and a size below
  \<open>-1\<close> raises \<open>ValueError\<close>.
\<close>

record pyfile =
  content :: "byte list"
  read_calls :: nat

datatype dval = DInt int | DArray ndarray | DList pylist

type_synonym pydict = "(string \<times> dval) list"

text \<open>The instance attributes. Those that \<open>__init__\<close> does not set exist only after
  \<open>read_header\<close> and the buffer readers have set them; \<open>parse\<close> reads none of them before.\<close>

record parser =
  "file" :: pyfile
  data :: "pydict option"
  color_channel_data_type :: char
  num_of_color_channels :: int
  bytes_per_channel :: int
  bytes_per_index :: int
  width :: int
  height :: int
  depth :: int
  num_of_pallette_colors :: int
  voxels :: ndarray
  palette :: ndarray
  remaining_bytes :: "byte list"

definition color_channel_data_types :: "char list" where
  "color_channel_data_types = [CHR ''I'', CHR ''i'', CHR ''f'']"

text \<open>\<open>xs[i]\<close> on a Python list: a negative index counts from the end.\<close>

definition list_get :: "'a list \<Rightarrow> int \<Rightarrow> pyerror + 'a" where
  "list_get xs i =
     (if 0 \<le> i \<and> i < int (length xs) then Inr (xs ! nat i)
      else if i < 0 \<and> - int (length xs) \<le> i then Inr (xs ! nat (int (length xs) + i))
      else Inl IndexError)"

definition lift :: "pyerror + 'a \<Rightarrow> ('s, 'a) exn_state" where
  "lift r s = (r, s)"

text \<open>\<open>__init__\<close>: the file is opened for reading (its bytes are the argument) and
  nothing is read.\<close>

definition empty_array :: ndarray where
  "empty_array = \<lparr>shape = [], items = []\<rparr>"

definition XRawVolumeParser_init :: "byte list \<Rightarrow> parser" where
  "XRawVolumeParser_init bs =
     \<lparr>file = \<lparr>content = bs, read_calls = 0\<rparr>, data = None,
      color_channel_data_type = CHR ''I'', num_of_color_channels = 0,
      bytes_per_channel = 0, bytes_per_index = 0, width = 0, height = 0, depth = 0,
      num_of_pallette_colors = 0, voxels = empty_array, palette = empty_array,
      remaining_bytes = []\<rparr>"

definition file_read :: "int \<Rightarrow> (parser, byte list) exn_state" where
  "file_read n s =
     (let c = content (file s);
          called = Suc (read_calls (file s))
      in if n < - 1
         then (Inl (ValueError ''read length must be non-negative or -1''),
               s\<lparr>file := \<lparr>content = c, read_calls = called\<rparr>\<rparr>)
         else let got = (if n = - 1 then c else take (nat n) c)
              in (Inr got, s\<lparr>file := \<lparr>content = drop (length got) c, read_calls = called\<rparr>\<rparr>))"

definition raise_error_if_file_not_valid :: "(parser, unit) exn_state" where
  "raise_error_if_file_not_valid =
     seq (file_read 4) (\<lambda>bs.
     seq (lift (bytes_decode bs)) (\<lambda>str.
       if str \<noteq> py_str ''XRAW'' then raise (ValueError ''Can't recognize file format.'')
       else return ()))"

definition read_byte_to_int :: "(parser, int) exn_state" where
  "read_byte_to_int = seq (file_read 1) (\<lambda>bs. lift (unpack_b bs))"

definition read_int :: "(parser, int) exn_state" where
  "read_int = seq (file_read 4) (\<lambda>bs. lift (unpack_i bs))"

definition read_unsigned_int :: "(parser, int) exn_state" where
  "read_unsigned_int = seq (file_read 4) (\<lambda>bs. lift (unpack_I bs))"

definition read_header :: "(parser, unit) exn_state" where
  "read_header =
     seq raise_error_if_file_not_valid (\<lambda>_.
     seq read_byte_to_int (\<lambda>i.
     seq (lift (list_get color_channel_data_types i)) (\<lambda>t.
     seq (modify (\<lambda>s. s\<lparr>color_channel_data_type := t\<rparr>)) (\<lambda>_.
     seq read_byte_to_int (\<lambda>n.
     seq (modify (\<lambda>s. s\<lparr>num_of_color_channels := n\<rparr>)) (\<lambda>_.
     seq read_byte_to_int (\<lambda>b.
     seq (modify (\<lambda>s. s\<lparr>bytes_per_channel := b div 8\<rparr>)) (\<lambda>_.
     seq read_byte_to_int (\<lambda>b.
     seq (modify (\<lambda>s. s\<lparr>bytes_per_index := b div 8\<rparr>)) (\<lambda>_.
     seq read_unsigned_int (\<lambda>w.
     seq (modify (\<lambda>s. s\<lparr>width := w\<rparr>)) (\<lambda>_.
     seq read_unsigned_int (\<lambda>h.
     seq (modify (\<lambda>s. s\<lparr>height := h\<rparr>)) (\<lambda>_.
     seq read_unsigned_int (\<lambda>d.
     seq (modify (\<lambda>s. s\<lparr>depth := d\<rparr>)) (\<lambda>_.
     seq read_unsigned_int (\<lambda>n.
     modify (\<lambda>s. s\<lparr>num_of_pallette_colors := n\<rparr>))))))))))))))))))"

text \<open>The body of the innermost loop of \<open>read_voxel_buffer\<close>:
  \<open>self.voxels[x][y][z] = int.from_bytes(self.file.read(self.bytes_per_index), byteorder='little')\<close>.\<close>

definition read_voxel :: "nat \<Rightarrow> nat \<Rightarrow> nat \<Rightarrow> (parser, unit) exn_state" where
  "read_voxel z y x =
     seq (\<lambda>s. file_read (bytes_per_index s) s) (\<lambda>bs.
     seq (lift (store_float64 (int_from_bytes bs))) (\<lambda>v.
     seq (\<lambda>s. lift (array_set (voxels s) [x, y, z] v) s) (\<lambda>a.
     modify (\<lambda>s. s\<lparr>voxels := a\<rparr>))))"

definition read_voxel_buffer :: "(parser, unit) exn_state" where
  "read_voxel_buffer =
     seq (\<lambda>s. lift (np_zeros [width s, height s, depth s]) s) (\<lambda>a.
     seq (modify (\<lambda>s. s\<lparr>voxels := a\<rparr>)) (\<lambda>_. (\<lambda>s.
       for_loop (py_range (depth s)) (\<lambda>z s.
         for_loop (py_range (height s)) (\<lambda>y s.
           for_loop (py_range (width s)) (\<lambda>x. read_voxel z y x) s) s) s)))"

text \<open>\<open>b"\x00" * k\<close>: empty when \<open>k \<le> 0\<close>.\<close>

definition zero_bytes :: "int \<Rightarrow> byte list" where
  "zero_bytes k = replicate (nat k) 0"

definition read_channel :: "nat \<Rightarrow> nat \<Rightarrow> (parser, unit) exn_state" where
  "read_channel i c =
     seq (\<lambda>s. file_read (bytes_per_channel s) s) (\<lambda>bs.
     seq (\<lambda>s. lift (unpack_channel (color_channel_data_type s)
                      (bs @ zero_bytes (4 - bytes_per_channel s))) s) (\<lambda>v.
     seq (\<lambda>s. lift (array_set (palette s) [i, c] v) s) (\<lambda>a.
     modify (\<lambda>s. s\<lparr>palette := a\<rparr>))))"

definition read_palette_buffer :: "(parser, unit) exn_state" where
  "read_palette_buffer =
     seq (\<lambda>s. lift (np_zeros [num_of_pallette_colors s, num_of_color_channels s]) s) (\<lambda>a.
     seq (modify (\<lambda>s. s\<lparr>palette := a\<rparr>)) (\<lambda>_. (\<lambda>s.
       for_loop (py_range (num_of_pallette_colors s)) (\<lambda>i s.
         for_loop (py_range (num_of_color_channels s)) (\<lambda>c. read_channel i c) s) s)))"

text \<open>The \<open>while byte != b""\<close> loop of \<open>read_remaining_bytes\<close>; it ends because every
  non-empty read shortens what is left of the file.\<close>

function read_remaining_loop :: "byte list \<Rightarrow> parser \<Rightarrow> parser" where
  "read_remaining_loop byte s =
     (if byte \<noteq> [] then
        (case file_read 1 (s\<lparr>remaining_bytes := remaining_bytes s @ byte\<rparr>) of
           (Inr b, s') \<Rightarrow> read_remaining_loop b s'
         | (Inl e, s') \<Rightarrow> s')
      else s)"
  by pat_completeness auto
termination
  by (relation "measure (\<lambda>(byte, s). length byte + length (content (file s)))")
     (auto simp: file_read_def Let_def split: if_splits)

declare read_remaining_loop.simps [simp del]

definition read_remaining_bytes :: "(parser, unit) exn_state" where
  "read_remaining_bytes =
     seq (modify (\<lambda>s. s\<lparr>remaining_bytes := []\<rparr>)) (\<lambda>_.
     seq (file_read 1) (\<lambda>byte.
     modify (read_remaining_loop byte)))"

text \<open>A dictionary is true when it is not empty; \<open>None\<close> is false.\<close>

definition truthy :: "pydict option \<Rightarrow> bool" where
  "truthy d = (case d of None \<Rightarrow> False | Some kvs \<Rightarrow> kvs \<noteq> [])"

definition dict_set :: "string \<Rightarrow> (parser \<Rightarrow> dval) \<Rightarrow> (parser, unit) exn_state" where
  "dict_set k v =
     modify (\<lambda>s. s\<lparr>data := map_option (AList.update k (v s)) (data s)\<rparr>)"

definition to_list :: "dval \<Rightarrow> dval" where
  "to_list v = (case v of DArray a \<Rightarrow> DList (tolist a) | _ \<Rightarrow> v)"

definition dict_tolist :: "string \<Rightarrow> (parser, unit) exn_state" where
  "dict_tolist k =
     modify (\<lambda>s. s\<lparr>data := map_option (AList.map_entry k to_list) (data s)\<rparr>)"

text \<open>The statements of \<open>parse\<close> that follow the four readers: the dictionary is built,
  stored in \<open>self.data\<close> and returned.\<close>

definition assemble_data :: "bool \<Rightarrow> (parser, pydict) exn_state" where
  "assemble_data use_lists =
     seq (modify (\<lambda>s. s\<lparr>data := Some []\<rparr>)) (\<lambda>_.
     seq (dict_set ''width'' (\<lambda>s. DInt (width s))) (\<lambda>_.
     seq (dict_set ''height'' (\<lambda>s. DInt (height s))) (\<lambda>_.
     seq (dict_set ''depth'' (\<lambda>s. DInt (depth s))) (\<lambda>_.
     seq (dict_set ''num_of_pallette_colors'' (\<lambda>s. DInt (num_of_pallette_colors s))) (\<lambda>_.
     seq (dict_set ''voxels'' (\<lambda>s. DArray (voxels s))) (\<lambda>_.
     seq (dict_set ''palette'' (\<lambda>s. DArray (palette s))) (\<lambda>_.
     seq (if use_lists
          then seq (dict_tolist ''voxels'') (\<lambda>_. dict_tolist ''palette'')
          else return ()) (\<lambda>_.
     (\<lambda>s. (Inr (the (data s)), s))))))))))"

definition parse :: "bool \<Rightarrow> (parser, pydict) exn_state" where
  "parse use_lists s =
     (if truthy (data s) then (Inr (the (data s)), s)
      else
       (seq read_header (\<lambda>_.
        seq read_voxel_buffer (\<lambda>_.
        seq read_palette_buffer (\<lambda>_.
        seq read_remaining_bytes (\<lambda>_.
        assemble_data use_lists)))) s))"

subsection \<open>XRawVolumeWriter\<close>

text \<open>
  What a caller can pass as \<open>voxels\<close> or \<open>palette\<close>: nothing (\<open>None\<close>), a number or
  nested list of numbers, or a numpy array.
\<close>

datatype pyarg = PyNone | PyNested pylist | PyNdarray ndarray

text \<open>
  The shape numpy finds for a nested list: every element of a list must have the same
  shape, otherwise the list is ragged and there is none. An empty list has shape \<open>[0]\<close>.
\<close>

fun list_shape :: "pylist \<Rightarrow> nat list option" where
  "list_shape (Leaf v) = Some []"
| "list_shape (Lst []) = Some [0]"
| "list_shape (Lst (x # xs)) =
     (case list_shape x of
        None \<Rightarrow> None
      | Some sh \<Rightarrow>
          if \<forall>y \<in> set xs. list_shape y = Some sh then Some (Suc (length xs) # sh) else None)"

fun leaves :: "pylist \<Rightarrow> scalar list" where
  "leaves (Leaf v) = [v]"
| "leaves (Lst xs) = concat (map leaves xs)"

text \<open>
  The element type numpy chooses. A Python integer is a C \<open>long\<close> when it fits 64 bits
  signed, an unsigned 64-bit integer when it is between \<open>2^63\<close> and \<open>2^64 - 1\<close>, and a
  Python object beyond; a float is a float64. With an object among the elements the
  array keeps the Python numbers as they are. Otherwise a float among them, or signed
  together with unsigned integers, makes it a float64 array and every integer is
  converted; an array of integers of one kind keeps them.
\<close>

datatype np_kind = KLong | KULongLong | KObject | KFloat

fun kind_of :: "scalar \<Rightarrow> np_kind" where
  "kind_of (PyInt v) =
     (if - (2 ^ 63) \<le> v \<and> v < 2 ^ 63 then KLong
      else if 2 ^ 63 \<le> v \<and> v < 2 ^ 64 then KULongLong
      else KObject)"
| "kind_of x = KFloat"

fun to_float :: "scalar \<Rightarrow> scalar" where
  "to_float (PyInt v) = float64_of_int v"
| "to_float x = x"

definition promote :: "scalar list \<Rightarrow> scalar list" where
  "promote xs =
     (let ks = set (map kind_of xs)
      in if KObject \<in> ks then xs
         else if KFloat \<in> ks \<or> (KLong \<in> ks \<and> KULongLong \<in> ks) then map to_float xs
         else xs)"

text \<open>
  What numpy reports for a ragged list. It discovers the shape depth first, keeping the
  number of dimensions found so far (none before the first number or empty list is
  met), the extents of the first path down, and whether that path has been completed.
  A number met above the depth found before lowers the number of dimensions to its own
  depth; a list met at the depth of the numbers, or whose length differs from the extent
  found for its depth (which lowers the number of dimensions to that depth), is not
  entered. Each of these marks the list as ragged, and the walk goes on to the end. The
  message names the number of dimensions that is left and the extents found for them.
\<close>

record discovery =
  max_dims :: "nat option"
  out_shape :: "nat list"
  max_dims_reached :: bool
  found_ragged :: bool

fun discover :: "pylist \<Rightarrow> nat \<Rightarrow> discovery \<Rightarrow> discovery" where
  "discover (Leaf v) curr_dims st =
     (if max_dims st = Some curr_dims then st\<lparr>max_dims_reached := True\<rparr>
      else st\<lparr>max_dims := Some curr_dims, max_dims_reached := True,
              found_ragged := found_ragged st \<or> max_dims_reached st\<rparr>)"
| "discover (Lst xs) curr_dims st =
     (if (case max_dims st of None \<Rightarrow> False | Some m \<Rightarrow> m < curr_dims + 1)
      then st\<lparr>found_ragged := True\<rparr>
      else if max_dims_reached st \<and> length xs \<noteq> out_shape st ! curr_dims
      then st\<lparr>max_dims := Some curr_dims, found_ragged := True\<rparr>
      else
        (let st' = (if max_dims_reached st then st
                    else st\<lparr>out_shape := take curr_dims (out_shape st) @ [length xs]\<rparr>)
         in if xs = [] then st'\<lparr>max_dims := Some (curr_dims + 1), max_dims_reached := True\<rparr>
            else fold (\<lambda>x. discover x (curr_dims + 1)) xs st'))"

fun digits :: "nat \<Rightarrow> string" where
  "digits n =
     (if n < 10 then [char_of (48 + n)] else digits (n div 10) @ [char_of (48 + n mod 10)])"

fun tuple_repr :: "nat list \<Rightarrow> string" where
  "tuple_repr [] = ''()''"
| "tuple_repr [n] = ''('' @ digits n @ '',)''"
| "tuple_repr (n # ns) = ''('' @ digits n @ concat (map (\<lambda>k. '', '' @ digits k) ns) @ '')''"

definition inhomogeneous_shape :: "pylist \<Rightarrow> string" where
  "inhomogeneous_shape l =
     (let st = discover l 0
                 \<lparr>max_dims = None, out_shape = [], max_dims_reached = False, found_ragged = False\<rparr>;
          ndim = (case max_dims st of None \<Rightarrow> length (out_shape st) | Some m \<Rightarrow> m)
      in ''setting an array element with a sequence. The requested array has an inhomogeneous shape after ''
         @ digits ndim @ '' dimensions. The detected shape was ''
         @ tuple_repr (take ndim (out_shape st)) @ '' + inhomogeneous part.'')"

text \<open>
  \<open>np.array(obj)\<close>. A ragged nested list raises \<open>ValueError\<close> (numpy 1.24 and later; the
  limit on the number of dimensions is not modelled). An array is copied.
\<close>

definition np_array :: "pyarg \<Rightarrow> pyerror + ndarray" where
  "np_array obj =
     (case obj of
        PyNdarray a \<Rightarrow> Inr a
      | PyNested l \<Rightarrow>
          (case list_shape l of
             None \<Rightarrow> Inl (ValueError (inhomogeneous_shape l))
           | Some sh \<Rightarrow> Inr \<lparr>shape = sh, items = promote (leaves l)\<rparr>)
      | PyNone \<Rightarrow> Inl TypeError)"

text \<open>
  The condition \<open>obj != None\<close> as the conditional expression of \<open>__init__\<close> tests it. For
  \<open>None\<close> it is false and for a number or a list it is true. For a numpy array the
  comparison is made element by element and gives an array of \<open>True\<close>, whose truth value
  is \<open>True\<close> when it has exactly one element and raises \<open>ValueError\<close> otherwise (for an
  empty array since numpy 2.2).
\<close>

definition ne_None :: "pyarg \<Rightarrow> pyerror + bool" where
  "ne_None obj =
     (case obj of
        PyNone \<Rightarrow> Inr False
      | PyNested l \<Rightarrow> Inr True
      | PyNdarray a \<Rightarrow>
          if length (items a) = 1 then Inr True
          else if items a = [] then
            Inl (ValueError ''The truth value of an empty array is ambiguous. Use `array.size > 0` to check that an array is not empty.'')
          else
            Inl (ValueError ''The truth value of an array with more than one element is ambiguous. Use a.any() or a.all()''))"

text \<open>The file opened by \<open>write_file\<close>: what has been written to it and whether it has
  been closed.\<close>

record outfile =
  path :: string
  written :: "byte list"
  closed :: bool

record writer =
  voxels :: ndarray
  palette :: ndarray
  format_string :: string
  color_channel_data_type :: char
  bytes_per_channel :: int
  bytes_per_index :: int
  width :: int
  height :: int
  depth :: int
  num_of_pallette_colors :: int
  num_of_color_channels :: int
  "file" :: "outfile option"

definition default_palette :: ndarray where
  "default_palette = np_full [256, 4] 255"

definition default_voxels :: ndarray where
  "default_voxels = zeros [1, 1, 1]"

text \<open>\<open>t[i]\<close> on the shape tuple, for a non-negative index.\<close>

definition shape_get :: "nat list \<Rightarrow> nat \<Rightarrow> pyerror + int" where
  "shape_get sh i = (if i < length sh then Inr (int (sh ! i)) else Inl IndexError)"

definition or_raise :: "pyerror + 'a \<Rightarrow> ('a \<Rightarrow> pyerror + 'b) \<Rightarrow> pyerror + 'b" where
  "or_raise r f = (case r of Inl e \<Rightarrow> Inl e | Inr a \<Rightarrow> f a)"

definition XRawVolumeWriter_init :: "pyarg \<Rightarrow> pyarg \<Rightarrow> pyerror + writer" where
  "XRawVolumeWriter_init voxels_arg palette_arg =
     or_raise (ne_None voxels_arg) (\<lambda>given.
     or_raise (if given then np_array voxels_arg else Inr default_voxels) (\<lambda>vox.
     or_raise (ne_None palette_arg) (\<lambda>given.
     or_raise (if given then np_array palette_arg else Inr default_palette) (\<lambda>pal.
       if length (shape vox) \<noteq> 3 then Inl (ValueError ''voxel grid must be 3 dimensional'')
       else
         or_raise (shape_get (shape vox) 0) (\<lambda>w.
         or_raise (shape_get (shape vox) 1) (\<lambda>h.
         or_raise (shape_get (shape vox) 2) (\<lambda>d.
         or_raise (shape_get (shape pal) 0) (\<lambda>n.
         or_raise (shape_get (shape pal) 1) (\<lambda>c.
           Inr \<lparr>voxels = vox, palette = pal, format_string = ''XRAW'',
                color_channel_data_type = color_channel_data_types ! 0,
                bytes_per_channel = 1, bytes_per_index = 1,
                width = w, height = h, depth = d,
                num_of_pallette_colors = n, num_of_color_channels = c,
                file = None\<rparr>)))))))))"

text \<open>
  \<open>bytes(iterable)\<close>: every element must be an integer in \<open>range(0, 256)\<close>. A numpy
  integer is accepted as an integer; a float64 or an array is not (\<open>TypeError\<close>).
\<close>

fun byte_of_item :: "pyitem \<Rightarrow> pyerror + byte" where
  "byte_of_item (Item (PyInt v)) =
     (if 0 \<le> v \<and> v < 256 then Inr (word_of_int v)
      else Inl (ValueError ''bytes must be in range(0, 256)''))"
| "byte_of_item x = Inl TypeError"

fun py_bytes :: "pyitem list \<Rightarrow> pyerror + byte list" where
  "py_bytes [] = Inr []"
| "py_bytes (x # xs) =
     (case byte_of_item x of
        Inl e \<Rightarrow> Inl e
      | Inr b \<Rightarrow> (case py_bytes xs of Inl e \<Rightarrow> Inl e | Inr bs \<Rightarrow> Inr (b # bs)))"

text \<open>A \<open>bytes\<close> object as the iterable of its integers, and a Python integer as an
  element.\<close>

definition bytes_items :: "byte list \<Rightarrow> pyitem list" where
  "bytes_items bs = map (\<lambda>b. Item (PyInt (uint b))) bs"

definition int_item :: "int \<Rightarrow> pyitem" where
  "int_item n = Item (PyInt n)"

definition file_write :: "byte list \<Rightarrow> (writer, unit) exn_state" where
  "file_write bs s =
     (case file s of
        None \<Rightarrow> (Inl TypeError, s)
      | Some f \<Rightarrow>
          if closed f then (Inl (ValueError ''write to closed file''), s)
          else (Inr (), s\<lparr>file := Some (f\<lparr>written := written f @ bs\<rparr>)\<rparr>))"

definition write_bytes :: "pyitem list \<Rightarrow> (writer, unit) exn_state" where
  "write_bytes bytes_iterable s =
     (if file s = None then (Inr (), s)
      else seq (lift (py_bytes bytes_iterable)) file_write s)"

definition write_unsigned_int :: "int \<Rightarrow> (writer, unit) exn_state" where
  "write_unsigned_int int_number s =
     (if file s = None then (Inr (), s)
      else seq (lift (int_to_bytes 4 int_number)) (\<lambda>bs. write_bytes (bytes_items bs)) s)"

text \<open>\<open>xs.index(x)\<close>: the first position of \<open>x\<close>, \<open>ValueError\<close> when it is absent.\<close>

fun list_index :: "'a list \<Rightarrow> 'a \<Rightarrow> pyerror + int" where
  "list_index [] x = Inl (ValueError ''x is not in list'')"
| "list_index (y # ys) x =
     (if y = x then Inr 0 else map_sum id (\<lambda>i. i + 1) (list_index ys x))"

definition get_color_channel_data_type_index :: "(writer, int) exn_state" where
  "get_color_channel_data_type_index s =
     lift (list_index color_channel_data_types (color_channel_data_type s)) s"

definition write_header :: "(writer, unit) exn_state" where
  "write_header s =
     (if file s = None then (Inr (), s)
      else
       (seq (\<lambda>s. write_bytes (bytes_items (str_encode (format_string s))) s) (\<lambda>_.
        seq get_color_channel_data_type_index (\<lambda>i.
        seq (write_bytes [int_item i]) (\<lambda>_.
        seq (\<lambda>s. write_bytes [int_item (num_of_color_channels s)] s) (\<lambda>_.
        seq (\<lambda>s. write_bytes [int_item (bytes_per_channel s * 8)] s) (\<lambda>_.
        seq (\<lambda>s. write_bytes [int_item (bytes_per_index s * 8)] s) (\<lambda>_.
        seq (\<lambda>s. write_unsigned_int (width s) s) (\<lambda>_.
        seq (\<lambda>s. write_unsigned_int (height s) s) (\<lambda>_.
        seq (\<lambda>s. write_unsigned_int (depth s) s) (\<lambda>_.
        (\<lambda>s. write_unsigned_int (num_of_pallette_colors s) s)))))))))) s))"

text \<open>The loop bodies \<open>self.write_bytes([self.voxels[x][y][z]])\<close> and
  \<open>self.write_bytes([self.palette[i][c]])\<close>.\<close>

definition write_voxel :: "nat \<Rightarrow> nat \<Rightarrow> nat \<Rightarrow> (writer, unit) exn_state" where
  "write_voxel z y x =
     seq (\<lambda>s. lift (array_get (voxels s) [x, y, z]) s) (\<lambda>v. write_bytes [v])"

definition write_voxels :: "(writer, unit) exn_state" where
  "write_voxels s =
     for_loop (py_range (depth s)) (\<lambda>z s.
       for_loop (py_range (height s)) (\<lambda>y s.
         for_loop (py_range (width s)) (\<lambda>x. write_voxel z y x) s) s) s"

definition write_channel :: "nat \<Rightarrow> nat \<Rightarrow> (writer, unit) exn_state" where
  "write_channel i c =
     seq (\<lambda>s. lift (array_get (palette s) [i, c]) s) (\<lambda>v. write_bytes [v])"

definition write_palette :: "(writer, unit) exn_state" where
  "write_palette s =
     for_loop (py_range (num_of_pallette_colors s)) (\<lambda>i s.
       for_loop (py_range (num_of_color_channels s)) (\<lambda>c. write_channel i c) s) s"

definition file_close :: "(writer, unit) exn_state" where
  "file_close s =
     (case file s of
        None \<Rightarrow> (Inl TypeError, s)
      | Some f \<Rightarrow> (Inr (), s\<lparr>file := Some (f\<lparr>closed := True\<rparr>)\<rparr>))"

text \<open>\<open>write_file\<close>: the file at \<open>filepath\<close> is created empty (failures of \<open>open\<close> are
  not modelled), the three parts are written and the file is closed. When a write
  raises, the file stays open with what was written before.\<close>

definition write_file :: "string \<Rightarrow> (writer, unit) exn_state" where
  "write_file filepath =
     seq (modify (\<lambda>s. s\<lparr>file := Some \<lparr>path = filepath, written = [], closed = False\<rparr>\<rparr>)) (\<lambda>_.
     seq write_header (\<lambda>_.
     seq write_voxels (\<lambda>_.
     seq write_palette (\<lambda>_.
     file_close))))"

text \<open>The bytes of the file a successful \<open>write_file\<close> leaves behind.\<close>

definition file_bytes :: "writer \<Rightarrow> byte list" where
  "file_bytes s = (case file s of None \<Rightarrow> [] | Some f \<Rightarrow> written f)"

subsection \<open>The output file in the statements\<close>

text \<open>A writer whose file is open for writing, and the writer after the bytes \<open>bs\<close>
  have been appended to its file.\<close>

definition is_open :: "writer \<Rightarrow> bool" where
  "is_open s = (case file s of None \<Rightarrow> False | Some f \<Rightarrow> \<not> closed f)"

definition appended :: "byte list \<Rightarrow> writer \<Rightarrow> writer" where
  "appended bs s = s\<lparr>file := map_option (\<lambda>f. f\<lparr>written := written f @ bs\<rparr>) (file s)\<rparr>"

subsection \<open>Sample files\<close>

text \<open>A well-formed file of a volume without voxels and without palette entries: the
  24 bytes of the header.\<close>

definition empty_volume_file :: "byte list" where
  "empty_volume_file =
     [88, 82, 65, 87, 0, 4, 8, 8, 0, 0, 0, 0, 0, 0, 0, 0, 0, 0, 0, 0, 0, 0, 0, 0]"

text \<open>A header that announces one voxel and no palette entry, with nothing behind it.\<close>

definition truncated_file :: "byte list" where
  "truncated_file =
     [88, 82, 65, 87, 0, 4, 8, 8, 1, 0, 0, 0, 1, 0, 0, 0, 1, 0, 0, 0, 0, 0, 0, 0]"

text \<open>Arguments for the writer: a list of Python integers, a single voxel with the
  index 256, a single voxel 0, a palette of one colour with one channel and a palette
  of one colour with 128 channels.\<close>

definition int_list :: "int list \<Rightarrow> pylist" where
  "int_list vs = Lst (map (\<lambda>v. Leaf (PyInt v)) vs)"

definition voxels_256 :: pyarg where
  "voxels_256 = PyNested (Lst [Lst [int_list [256]]])"

definition voxels_1x1x1 :: pyarg where
  "voxels_1x1x1 = PyNested (Lst [Lst [int_list [0]]])"

definition palette_1x1 :: pyarg where
  "palette_1x1 = PyNested (Lst [int_list [0]])"

definition palette_1x128 :: pyarg where
  "palette_1x128 = PyNested (Lst [int_list (replicate 128 0)])"

text \<open>The writer that \<open>XRawVolumeWriter()\<close> builds from its defaults, after \<open>write_file\<close>
  has opened the file \<open>out.xraw\<close>.\<close>

definition open_default_writer :: writer where
  "open_default_writer =
     \<lparr>voxels = default_voxels, palette = default_palette, format_string = ''XRAW'',
      color_channel_data_type = CHR ''I'', bytes_per_channel = 1, bytes_per_index = 1,
      width = 1, height = 1, depth = 1, num_of_pallette_colors = 256,
      num_of_color_channels = 4,
      file = Some \<lparr>path = ''out.xraw'', written = [], closed = False\<rparr>\<rparr>"

text \<open>The volume of \<open>2 \<times> 1 \<times> 1\<close> voxels with the indices 1 and 2 and a palette of two
  colours with four channels: the arguments, the writer built from them once its file
  is open, and a parser that has read the header of a file holding the two voxels.\<close>

definition sample_voxels :: pylist where
  "sample_voxels = Lst [Lst [int_list [1]], Lst [int_list [2]]]"

definition sample_palette :: pylist where
  "sample_palette = Lst [int_list [10, 20, 30, 40], int_list [50, 60, 70, 80]]"

definition open_sample_writer :: writer where
  "open_sample_writer =
     \<lparr>voxels = \<lparr>shape = [2, 1, 1], items = [PyInt 1, PyInt 2]\<rparr>,
      palette = \<lparr>shape = [2, 4],
                 items = [PyInt 10, PyInt 20, PyInt 30, PyInt 40,
                          PyInt 50, PyInt 60, PyInt 70, PyInt 80]\<rparr>,
      format_string = ''XRAW'',
      color_channel_data_type = CHR ''I'', bytes_per_channel = 1, bytes_per_index = 1,
      width = 2, height = 1, depth = 1, num_of_pallette_colors = 2,
      num_of_color_channels = 4,
      file = Some \<lparr>path = ''out.xraw'', written = [], closed = False\<rparr>\<rparr>"

definition sample_parser :: parser where
  "sample_parser =
     (XRawVolumeParser_init [])
       \<lparr>parser.file := \<lparr>content = [1, 2, 10, 20, 30, 40, 50, 60, 70, 80], read_calls = 9\<rparr>,
        parser.color_channel_data_type := CHR ''I'',
        parser.num_of_color_channels := 4,
        parser.bytes_per_channel := 1,
        parser.bytes_per_index := 1,
        parser.width := 2,
        parser.height := 1,
        parser.depth := 1,
        parser.num_of_pallette_colors := 2\<rparr>"

section \<open>Properties\<close>


lemma seq_Inr_iff:
  "seq m f s = (Inr b, s') \<longleftrightarrow> (\<exists>a s1. m s = (Inr a, s1) \<and> f a s1 = (Inr b, s'))"
  by (auto simp: seq_def split: prod.splits sum.splits)

lemma utf8_decode_ascii:
  "utf8_decode ns = Some cps \<Longrightarrow> \<forall>c \<in> set cps. c < 128 \<Longrightarrow> ns = cps"
proof (induction ns arbitrary: cps rule: utf8_decode.induct)
  case 1
  then show ?case by simp
next
  case (2 b0 bs)
  show ?case
  proof (cases "b0 < 128")
    case True
    with "2.prems" obtain r where r: "utf8_decode bs = Some r" "cps = b0 # r"
      by auto
    with "2.IH"(1) [OF True r(1)] "2.prems"(2) show ?thesis by simp
  next
    case False
    with "2.prems" show ?thesis
      by (auto simp: is_cont_def split: if_splits list.splits)
  qed
qed

lemma decode_is_magic:
  assumes "bytes_decode bs = Inr (py_str ''XRAW'')"
  shows "bs = str_encode ''XRAW''"
proof -
  from assms have "utf8_decode (map unat bs) = Some (py_str ''XRAW'')"
    by (simp add: bytes_decode_def split: option.splits)
  then have "map unat bs = py_str ''XRAW''"
    by (rule utf8_decode_ascii) (simp add: py_str_def)
  then have "map unat bs = map unat (str_encode ''XRAW'')"
    by (simp add: py_str_def str_encode_def)
  then show ?thesis
    by (simp add: inj_map_eq_map [OF inj_onI] )
qed


lemma seq_Inl:
  "m s = (Inl e, s') \<Longrightarrow> seq m f s = (Inl e, s')"
  by (simp add: seq_def)

lemma seq_Inr:
  "m s = (Inr a, s1) \<Longrightarrow> seq m f s = f a s1"
  by (simp add: seq_def)

lemma not_valid_result:
  assumes "take 4 (content (parser.file s)) \<noteq> str_encode ''XRAW''"
  shows "raise_error_if_file_not_valid s =
     (Inl (if utf8_decode (map unat (take 4 (content (parser.file s)))) = None then UnicodeDecodeError
           else ValueError ''Can't recognize file format.''),
      s\<lparr>parser.file := \<lparr>content = drop 4 (content (parser.file s)), read_calls = Suc (read_calls (parser.file s))\<rparr>\<rparr>)"
proof -
  let ?bs = "take 4 (content (parser.file s))"
  have neq: "bytes_decode ?bs \<noteq> Inr (py_str ''XRAW'')"
    using assms decode_is_magic by blast
  have len: "drop (length ?bs) (content (parser.file s)) = drop 4 (content (parser.file s))"
    by (cases "4 \<le> length (content (parser.file s))") (simp_all add: min_def)
  show ?thesis
  proof (cases "utf8_decode (map unat ?bs)")
    case None
    then show ?thesis
      using len
      by (simp add: raise_error_if_file_not_valid_def seq_def file_read_def lift_def
          bytes_decode_def Let_def)
  next
    case (Some cps)
    with neq have "cps \<noteq> py_str ''XRAW''"
      by (simp add: bytes_decode_def)
    with Some show ?thesis
      using len
      by (simp add: raise_error_if_file_not_valid_def seq_def file_read_def lift_def
          bytes_decode_def Let_def raise_def)
  qed
qed

text \<open>
  Claim C3. When the first four bytes of the source are not the ASCII bytes \<open>XRAW\<close>
  (also when the source has fewer than four bytes), \<open>parse\<close> on a fresh parser raises
  an exception of class \<open>ValueError\<close>: the module's own
  \<open>ValueError("Can't recognize file format.")\<close> when the bytes read are valid UTF-8, and
  the \<open>UnicodeDecodeError\<close> of \<open>decode\<close> (a subclass of \<open>ValueError\<close>) when they are not.
  In both cases the state left behind shows that \<open>read\<close> was called exactly once, for
  the four bytes of the tag, and that no attribute of the header was set.
\<close>

theorem parse_rejects_bad_magic:
  assumes "take 4 bs \<noteq> str_encode ''XRAW''"
  shows "\<exists>e. parse use_lists (XRawVolumeParser_init bs) =
           (Inl e, (XRawVolumeParser_init bs)\<lparr>parser.file := \<lparr>content = drop 4 bs, read_calls = 1\<rparr>\<rparr>)
         \<and> is_ValueError e
         \<and> e = (if utf8_decode (map unat (take 4 bs)) = None then UnicodeDecodeError
                else ValueError ''Can't recognize file format.'')"
proof -
  let ?s = "XRawVolumeParser_init bs"
  have c: "content (parser.file ?s) = bs" "read_calls (parser.file ?s) = 0" "\<not> truthy (parser.data ?s)"
    by (simp_all add: XRawVolumeParser_init_def truthy_def)
  from assms c have "take 4 (content (parser.file ?s)) \<noteq> str_encode ''XRAW''" by simp
  from not_valid_result [OF this]
  have "read_header ?s = (Inl (if utf8_decode (map unat (take 4 bs)) = None then UnicodeDecodeError
           else ValueError ''Can't recognize file format.''),
      ?s\<lparr>parser.file := \<lparr>content = drop 4 bs, read_calls = 1\<rparr>\<rparr>)"
    unfolding read_header_def by (simp add: seq_Inl c)
  then have "parse use_lists ?s = (Inl (if utf8_decode (map unat (take 4 bs)) = None then UnicodeDecodeError
           else ValueError ''Can't recognize file format.''),
      ?s\<lparr>parser.file := \<lparr>content = drop 4 bs, read_calls = 1\<rparr>\<rparr>)"
    unfolding parse_def using c(3) by (simp add: seq_Inl)
  then show ?thesis by simp
qed

theorem parse_rejects_bad_magic_witness:
  "take 4 (str_encode ''XRA0'' @ [1, 2]) \<noteq> str_encode ''XRAW''
   \<and> parse False (XRawVolumeParser_init (str_encode ''XRA0'' @ [1, 2])) =
       (Inl (ValueError ''Can't recognize file format.''),
        (XRawVolumeParser_init (str_encode ''XRA0'' @ [1, 2]))
          \<lparr>parser.file := \<lparr>content = [1, 2], read_calls = 1\<rparr>\<rparr>)"
proof -
  have h: "take 4 (str_encode ''XRA0'' @ [1, 2 :: byte]) \<noteq> str_encode ''XRAW''"
    by (simp add: str_encode_def)
  have d: "utf8_decode (map unat (take 4 (str_encode ''XRA0'' @ [1, 2 :: byte]))) \<noteq> None"
    by (simp add: str_encode_def)
  show ?thesis
    using h d parse_rejects_bad_magic [OF h, of False] by (auto simp: str_encode_def)
qed



lemma assemble_data_result:
  assumes "assemble_data use_lists s = (Inr d, s')"
  shows "parser.data s' = Some d
    \<and> d = [(''width'', DInt (parser.width s)), (''height'', DInt (parser.height s)),
           (''depth'', DInt (parser.depth s)),
           (''num_of_pallette_colors'', DInt (parser.num_of_pallette_colors s)),
           (''voxels'', if use_lists then DList (tolist (parser.voxels s))
                        else DArray (parser.voxels s)),
           (''palette'', if use_lists then DList (tolist (parser.palette s))
                         else DArray (parser.palette s))]
    \<and> s' = s\<lparr>parser.data := Some d\<rparr>"
  using assms unfolding assemble_data_def
  by (cases use_lists)
     (auto simp: seq_def modify_def dict_set_def dict_tolist_def return_def to_list_def)

lemma parse_success_data:
  assumes "parse use_lists s = (Inr d, s')"
  shows "parser.data s' = Some d \<and> d \<noteq> []"
proof (cases "truthy (parser.data s)")
  case True
  with assms show ?thesis
    by (auto simp: parse_def truthy_def split: option.splits)
next
  case False
  with assms obtain s4 where "assemble_data use_lists s4 = (Inr d, s')"
    unfolding parse_def by (auto simp: seq_Inr_iff)
  from assemble_data_result [OF this] show ?thesis by auto
qed

text \<open>
  Claim C4. Once \<open>parse\<close> has returned a dictionary, every later call of \<open>parse\<close> (with
  either value of \<open>use_lists\<close>) returns that same dictionary and leaves the whole
  state, the file position and the count of \<open>read\<close> calls included, as it was: the
  dictionary that \<open>parse\<close> stores always has its six keys, so it is never taken for
  "not parsed yet".
\<close>

theorem parse_cached:
  assumes "parse use_lists s = (Inr d, s')"
  shows "parse use_lists' s' = (Inr d, s')"
  using parse_success_data [OF assms] by (simp add: parse_def truthy_def)

lemma for_loop_py_range_0 [simp]: "for_loop (py_range 0) body s = (Inr (), s)"
  by (simp add: py_range_def)

lemma parse_empty_volume_file:
  "\<exists>d s'. parse False (XRawVolumeParser_init empty_volume_file) = (Inr d, s')
     \<and> read_calls (parser.file s') = 10"
  by (simp add: parse_def truthy_def XRawVolumeParser_init_def empty_volume_file_def
      read_header_def raise_error_if_file_not_valid_def seq_def file_read_def lift_def
      bytes_decode_def str_encode_def py_str_def is_cont_def return_def read_byte_to_int_def
      unpack_b_def list_get_def color_channel_data_types_def modify_def read_unsigned_int_def
      unpack_I_def read_voxel_buffer_def np_zeros_def zeros_def read_palette_buffer_def
      read_remaining_bytes_def read_remaining_loop.simps dict_set_def assemble_data_def Let_def)

theorem parse_cached_witness:
  "\<exists>d s'. parse False (XRawVolumeParser_init empty_volume_file) = (Inr d, s')
     \<and> parse True s' = (Inr d, s') \<and> read_calls (parser.file s') = 10"
proof -
  from parse_empty_volume_file obtain d s' where
    h: "parse False (XRawVolumeParser_init empty_volume_file) = (Inr d, s')"
    and r: "read_calls (parser.file s') = 10"
    by blast
  from parse_cached [OF h, of True] h r show ?thesis by blast
qed


subsection \<open>The constructor of the writer\<close>

lemma ne_None_is_ValueError:
  "ne_None obj = Inl e \<Longrightarrow> is_ValueError e"
  by (auto simp: ne_None_def split: pyarg.splits if_splits)

lemma np_array_is_ValueError:
  "obj \<noteq> PyNone \<Longrightarrow> np_array obj = Inl e \<Longrightarrow> is_ValueError e"
  by (auto simp: np_array_def split: pyarg.splits option.splits)

lemma ne_None_PyNone: "ne_None obj = Inr False \<longleftrightarrow> obj = PyNone"
  by (auto simp: ne_None_def split: pyarg.splits if_splits)

lemma ne_None_returns:
  "ne_None obj = Inr given \<Longrightarrow>
   obj = PyNone \<or> (\<exists>l. obj = PyNested l) \<or> (\<exists>b. obj = PyNdarray b \<and> length (items b) = 1)"
  by (auto simp: ne_None_def split: pyarg.splits if_splits)

lemma init_tests_arguments:
  assumes "XRawVolumeWriter_init voxels_arg palette_arg = Inr w"
  shows "(\<exists>given. ne_None voxels_arg = Inr given) \<and> (\<exists>given. ne_None palette_arg = Inr given)"
proof (cases "ne_None voxels_arg")
  case (Inl e)
  with assms show ?thesis
    by (simp add: XRawVolumeWriter_init_def or_raise_def)
next
  case given: (Inr given)
  show ?thesis
  proof (cases "if given then np_array voxels_arg else Inr default_voxels")
    case (Inl e)
    with assms given show ?thesis
      by (simp add: XRawVolumeWriter_init_def or_raise_def)
  next
    case vox: (Inr vox)
    show ?thesis
    proof (cases "ne_None palette_arg")
      case (Inl e)
      with assms given vox show ?thesis
        by (simp add: XRawVolumeWriter_init_def or_raise_def)
    next
      case (Inr given')
      with given show ?thesis
        by simp
    qed
  qed
qed

text \<open>
  Claim C10, amended. A numpy array with more than one element, passed as \<open>voxels\<close>,
  makes the constructor raise the \<open>ValueError\<close> of an ambiguous truth value, whatever its
  shape and values and whatever the palette argument is; passed as \<open>palette\<close>, it makes
  the constructor raise a \<open>ValueError\<close> whatever the voxels argument is. Whenever the
  constructor returns a writer, each of its two arguments was omitted, a nested list,
  or a numpy array with exactly one element: these are the arguments for which the
  comparison with \<open>None\<close> has a truth value.
\<close>

theorem init_ndarray_arguments:
  "(1 < length (items a) \<longrightarrow>
      XRawVolumeWriter_init (PyNdarray a) palette_arg =
        Inl (ValueError ''The truth value of an array with more than one element is ambiguous. Use a.any() or a.all()'')
      \<and> (\<exists>e. XRawVolumeWriter_init voxels_arg (PyNdarray a) = Inl e \<and> is_ValueError e))
   \<and> (XRawVolumeWriter_init v p = Inr w \<longrightarrow>
        (v = PyNone \<or> (\<exists>l. v = PyNested l) \<or> (\<exists>b. v = PyNdarray b \<and> length (items b) = 1))
      \<and> (p = PyNone \<or> (\<exists>l. p = PyNested l) \<or> (\<exists>b. p = PyNdarray b \<and> length (items b) = 1)))"
proof (intro conjI impI)
  assume big: "1 < length (items a)"
  then have ne: "ne_None (PyNdarray a) =
      Inl (ValueError ''The truth value of an array with more than one element is ambiguous. Use a.any() or a.all()'')"
    by (auto simp: ne_None_def)
  then show "XRawVolumeWriter_init (PyNdarray a) palette_arg =
      Inl (ValueError ''The truth value of an array with more than one element is ambiguous. Use a.any() or a.all()'')"
    by (simp add: XRawVolumeWriter_init_def or_raise_def)
  show "\<exists>e. XRawVolumeWriter_init voxels_arg (PyNdarray a) = Inl e \<and> is_ValueError e"
  proof (cases "ne_None voxels_arg")
    case (Inl e)
    then show ?thesis
      by (auto simp: XRawVolumeWriter_init_def or_raise_def dest: ne_None_is_ValueError)
  next
    case (Inr given)
    show ?thesis
    proof (cases "if given then np_array voxels_arg else Inr default_voxels")
      case (Inl e)
      with Inr have "given" "np_array voxels_arg = Inl e"
        by (auto split: if_splits)
      moreover from Inr \<open>given\<close> have "voxels_arg \<noteq> PyNone"
        by (auto simp: ne_None_def)
      ultimately have "is_ValueError e"
        by (auto dest: np_array_is_ValueError)
      with Inr Inl show ?thesis
        by (auto simp: XRawVolumeWriter_init_def or_raise_def)
    next
      case vox: (Inr vox)
      with Inr ne show ?thesis
        by (auto simp: XRawVolumeWriter_init_def or_raise_def)
    qed
  qed
next
  assume "XRawVolumeWriter_init v p = Inr w"
  from init_tests_arguments [OF this] obtain gv gp where
    gv: "ne_None v = Inr gv" and gp: "ne_None p = Inr gp"
    by blast
  show "v = PyNone \<or> (\<exists>l. v = PyNested l) \<or> (\<exists>b. v = PyNdarray b \<and> length (items b) = 1)"
    by (rule ne_None_returns [OF gv])
  show "p = PyNone \<or> (\<exists>l. p = PyNested l) \<or> (\<exists>b. p = PyNdarray b \<and> length (items b) = 1)"
    by (rule ne_None_returns [OF gp])
qed

theorem init_ndarray_arguments_witness:
  "1 < length (items (np_full [2, 1, 1] 7))
   \<and> XRawVolumeWriter_init (PyNdarray (np_full [2, 1, 1] 7)) PyNone =
       Inl (ValueError ''The truth value of an array with more than one element is ambiguous. Use a.any() or a.all()'')
   \<and> (\<exists>e. XRawVolumeWriter_init PyNone (PyNdarray (np_full [2, 1, 1] 7)) = Inl e \<and> is_ValueError e)
   \<and> XRawVolumeWriter_init (PyNdarray (np_full [1, 1, 1] 7)) PyNone =
       Inr (open_default_writer\<lparr>voxels := np_full [1, 1, 1] 7, file := None\<rparr>)
   \<and> length (items (np_full [1, 1, 1] 7)) = 1"
proof -
  have h: "1 < length (items (np_full [2, 1, 1] 7))"
    by (simp add: np_full_def)
  have i: "XRawVolumeWriter_init (PyNdarray (np_full [1, 1, 1] 7)) PyNone =
       Inr (open_default_writer\<lparr>voxels := np_full [1, 1, 1] 7, file := None\<rparr>)"
    by code_simp
  from h i
    init_ndarray_arguments [of "np_full [2, 1, 1] 7" PyNone PyNone
      "PyNdarray (np_full [1, 1, 1] 7)" PyNone
      "open_default_writer\<lparr>voxels := np_full [1, 1, 1] 7, file := None\<rparr>"]
  show ?thesis
    by simp
qed

text \<open>
  Claim C5. When the voxels argument is supplied and the array numpy makes of it does
  not have exactly three dimensions, the constructor raises a \<open>ValueError\<close> and returns
  no writer, so that no file is opened and nothing is written. The exception is the
  module's own \<open>ValueError("voxel grid must be 3 dimensional")\<close> whenever the voxels
  are given as a number or nested list and the palette is omitted or converts to an
  array; otherwise it is the \<open>ValueError\<close> that the conversion of an argument raised
  first.
\<close>

theorem init_shape_error:
  assumes "np_array voxels_arg = Inr a" and "length (shape a) \<noteq> 3"
  shows "\<exists>e. XRawVolumeWriter_init voxels_arg palette_arg = Inl e \<and> is_ValueError e
           \<and> ((\<exists>l. voxels_arg = PyNested l)
                \<and> (palette_arg = PyNone \<or> (\<exists>l p. palette_arg = PyNested l \<and> np_array palette_arg = Inr p))
               \<longrightarrow> e = ValueError ''voxel grid must be 3 dimensional'')"
proof (cases "ne_None voxels_arg")
  case (Inl e)
  then have "is_ValueError e"
    by (rule ne_None_is_ValueError)
  moreover from Inl have "\<not> (\<exists>l. voxels_arg = PyNested l)"
    by (auto simp: ne_None_def)
  moreover from Inl have "XRawVolumeWriter_init voxels_arg palette_arg = Inl e"
    by (simp add: XRawVolumeWriter_init_def or_raise_def)
  ultimately show ?thesis
    by simp
next
  case (Inr given)
  from assms(1) have "voxels_arg \<noteq> PyNone"
    by (auto simp: np_array_def)
  with Inr have given: "given"
    by (cases given) (auto simp: ne_None_PyNone)
  have nested: "ne_None palette_arg = Inr (palette_arg \<noteq> PyNone)"
    if "palette_arg = PyNone \<or> (\<exists>l p. palette_arg = PyNested l \<and> np_array palette_arg = Inr p)"
    using that by (auto simp: ne_None_def)
  show ?thesis
  proof (cases "ne_None palette_arg")
    case (Inl e)
    with Inr given assms nested show ?thesis
      by (auto simp: XRawVolumeWriter_init_def or_raise_def dest: ne_None_is_ValueError)
  next
    case pg: (Inr pgiven)
    show ?thesis
    proof (cases "if pgiven then np_array palette_arg else Inr default_palette")
      case (Inl e)
      with pg have "pgiven" "np_array palette_arg = Inl e"
        by (auto split: if_splits)
      moreover from pg \<open>pgiven\<close> have "palette_arg \<noteq> PyNone"
        by (auto simp: ne_None_def)
      ultimately have "is_ValueError e"
        by (auto dest: np_array_is_ValueError)
      moreover from pg Inl have
        "\<not> (palette_arg = PyNone \<or> (\<exists>l p. palette_arg = PyNested l \<and> np_array palette_arg = Inr p))"
        by (auto simp: ne_None_def)
      moreover from Inr given assms pg Inl
      have "XRawVolumeWriter_init voxels_arg palette_arg = Inl e"
        by (simp add: XRawVolumeWriter_init_def or_raise_def)
      ultimately show ?thesis
        by blast
    next
      case pal: (Inr pal)
      with Inr given assms pg show ?thesis
        by (auto simp: XRawVolumeWriter_init_def or_raise_def)
    qed
  qed
qed


theorem init_shape_error_witness:
  "np_array (PyNested (Lst [Lst [Leaf (PyInt 1), Leaf (PyInt 2)]])) =
     Inr \<lparr>shape = [1, 2], items = [PyInt 1, PyInt 2]\<rparr>
   \<and> length (shape \<lparr>shape = [1, 2], items = [PyInt 1, PyInt 2]\<rparr>) \<noteq> 3
   \<and> XRawVolumeWriter_init (PyNested (Lst [Lst [Leaf (PyInt 1), Leaf (PyInt 2)]])) PyNone =
       Inl (ValueError ''voxel grid must be 3 dimensional'')"
proof -
  have h1: "np_array (PyNested (Lst [Lst [Leaf (PyInt 1), Leaf (PyInt 2)]])) =
     Inr \<lparr>shape = [1, 2], items = [PyInt 1, PyInt 2]\<rparr>"
    by (simp add: np_array_def promote_def)
  have h2: "length (shape \<lparr>shape = [1, 2], items = [PyInt 1, PyInt 2]\<rparr>) \<noteq> 3"
    by simp
  from init_shape_error [OF h1 h2, of PyNone] h1 h2 show ?thesis
    by auto
qed


subsection \<open>The header\<close>

lemma valid_magic:
  assumes "content (parser.file s) = 88 # 82 # 65 # 87 # r"
  shows "raise_error_if_file_not_valid s =
     (Inr (), s\<lparr>parser.file := \<lparr>content = r, read_calls = Suc (read_calls (parser.file s))\<rparr>\<rparr>)"
  using assms
  by (simp add: raise_error_if_file_not_valid_def seq_def file_read_def lift_def
      bytes_decode_def py_str_def return_def)

lemma read_byte_to_int_Cons:
  assumes "content (parser.file s) = b # r"
  shows "read_byte_to_int s =
     (Inr (sint b), s\<lparr>parser.file := \<lparr>content = r, read_calls = Suc (read_calls (parser.file s))\<rparr>\<rparr>)"
  using assms
  by (simp add: read_byte_to_int_def seq_def file_read_def lift_def unpack_b_def)

lemma read_unsigned_int_Cons:
  assumes "content (parser.file s) = b0 # b1 # b2 # b3 # r"
  shows "read_unsigned_int s =
     (Inr (int_from_bytes [b0, b1, b2, b3]),
      s\<lparr>parser.file := \<lparr>content = r, read_calls = Suc (read_calls (parser.file s))\<rparr>\<rparr>)"
  using assms
  by (simp add: read_unsigned_int_def seq_def file_read_def lift_def unpack_I_def)

lemma read_header_result:
  assumes src: "content (parser.file s) =
      [88, 82, 65, 87] @ [t, c, bc, bi] @ [w0, w1, w2, w3] @ [h0, h1, h2, h3]
        @ [d0, d1, d2, d3] @ [n0, n1, n2, n3] @ rest"
    and ty: "list_get color_channel_data_types (sint t) = Inr ty"
  shows "read_header s =
     (Inr (),
      s\<lparr>parser.file := \<lparr>content = rest, read_calls = read_calls (parser.file s) + 9\<rparr>,
        parser.color_channel_data_type := ty,
        parser.num_of_color_channels := sint c,
        parser.bytes_per_channel := sint bc div 8,
        parser.bytes_per_index := sint bi div 8,
        parser.width := int_from_bytes [w0, w1, w2, w3],
        parser.height := int_from_bytes [h0, h1, h2, h3],
        parser.depth := int_from_bytes [d0, d1, d2, d3],
        parser.num_of_pallette_colors := int_from_bytes [n0, n1, n2, n3]\<rparr>)"
  unfolding read_header_def using src ty
  by (simp add: seq_Inr valid_magic read_byte_to_int_Cons read_unsigned_int_Cons
      lift_def modify_def del: int_from_bytes.simps)

lemma is_open_appended [simp]: "is_open (appended bs s) = is_open s"
  by (auto simp: is_open_def appended_def split: option.splits)

lemma appended_appended [simp]: "appended bs (appended cs s) = appended (cs @ bs) s"
  by (cases "writer.file s") (simp_all add: appended_def)

lemma appended_fields [simp]:
  "writer.voxels (appended bs s) = writer.voxels s"
  "writer.palette (appended bs s) = writer.palette s"
  "writer.format_string (appended bs s) = writer.format_string s"
  "writer.color_channel_data_type (appended bs s) = writer.color_channel_data_type s"
  "writer.bytes_per_channel (appended bs s) = writer.bytes_per_channel s"
  "writer.bytes_per_index (appended bs s) = writer.bytes_per_index s"
  "writer.width (appended bs s) = writer.width s"
  "writer.height (appended bs s) = writer.height s"
  "writer.depth (appended bs s) = writer.depth s"
  "writer.num_of_pallette_colors (appended bs s) = writer.num_of_pallette_colors s"
  "writer.num_of_color_channels (appended bs s) = writer.num_of_color_channels s"
  by (simp_all add: appended_def)

lemma appended_Nil [simp]: "appended [] s = s"
  by (cases "writer.file s") (simp_all add: appended_def)

lemma write_bytes_open:
  assumes "is_open s" and "py_bytes its = Inr bs"
  shows "write_bytes its s = (Inr (), appended bs s)"
  using assms
  by (auto simp: write_bytes_def is_open_def seq_def lift_def file_write_def appended_def
      split: option.splits)

lemma write_bytes_fails:
  assumes "is_open s" and "py_bytes its = Inl e"
  shows "write_bytes its s = (Inl e, s)"
  using assms
  by (auto simp: write_bytes_def is_open_def seq_def lift_def split: option.splits)

lemma write_bytes_int:
  assumes "is_open s" and "0 \<le> n" and "n < 256"
  shows "write_bytes [int_item n] s = (Inr (), appended [word_of_int n] s)"
  using assms by (intro write_bytes_open) (simp_all add: int_item_def)

lemma py_bytes_bytes_items: "py_bytes (bytes_items bs) = Inr bs"
proof (induction bs)
  case Nil
  then show ?case by (simp add: bytes_items_def)
next
  case (Cons b bs)
  have "uint b < 256"
    using uint_bounded [of b] by simp
  with Cons show ?case
    by (simp add: bytes_items_def)
qed

lemma write_unsigned_int_open:
  assumes "is_open s" and "0 \<le> n" and "n < 2 ^ 32"
  shows "write_unsigned_int n s = (Inr (), appended (le_bytes 4 n) s)"
proof -
  from assms(1) obtain f where "writer.file s = Some f"
    by (auto simp: is_open_def split: option.splits)
  moreover from assms(2,3) have "int_to_bytes 4 n = Inr (le_bytes 4 n)"
    by (simp add: int_to_bytes_def)
  ultimately show ?thesis
    using write_bytes_open [OF assms(1) py_bytes_bytes_items, of "le_bytes 4 n"]
    by (simp add: write_unsigned_int_def seq_def lift_def)
qed

lemma write_header_result:
  assumes op: "is_open s"
    and fmt: "writer.format_string s = ''XRAW''"
    and ty: "list_index color_channel_data_types (writer.color_channel_data_type s) = Inr i"
    and c: "0 \<le> writer.num_of_color_channels s" "writer.num_of_color_channels s < 256"
    and bc: "0 \<le> writer.bytes_per_channel s" "writer.bytes_per_channel s < 32"
    and bi: "0 \<le> writer.bytes_per_index s" "writer.bytes_per_index s < 32"
    and w: "0 \<le> writer.width s" "writer.width s < 2 ^ 32"
    and h: "0 \<le> writer.height s" "writer.height s < 2 ^ 32"
    and d: "0 \<le> writer.depth s" "writer.depth s < 2 ^ 32"
    and n: "0 \<le> writer.num_of_pallette_colors s" "writer.num_of_pallette_colors s < 2 ^ 32"
  shows "write_header s =
     (Inr (),
      appended
        ([88, 82, 65, 87]
         @ [word_of_int i, word_of_int (writer.num_of_color_channels s),
            word_of_int (writer.bytes_per_channel s * 8),
            word_of_int (writer.bytes_per_index s * 8)]
         @ le_bytes 4 (writer.width s) @ le_bytes 4 (writer.height s)
         @ le_bytes 4 (writer.depth s) @ le_bytes 4 (writer.num_of_pallette_colors s)) s)"
proof -
  from op obtain f where nn: "writer.file s = Some f"
    by (auto simp: is_open_def split: option.splits)
  from ty have i: "0 \<le> i" "i < 256"
    by (auto simp: color_channel_data_types_def split: if_splits)
  have magic: "write_bytes (bytes_items (str_encode ''XRAW'')) s' = (Inr (), appended [88, 82, 65, 87] s')"
    if "is_open s'" for s'
    using write_bytes_open [OF that py_bytes_bytes_items, of "str_encode ''XRAW''"]
    by (simp add: str_encode_def)
  show ?thesis
    unfolding write_header_def
    using nn op fmt ty i c bc bi w h d n
    by (simp add: seq_Inr magic get_color_channel_data_type_index_def lift_def
        write_bytes_int write_unsigned_int_open del: le_bytes.simps)
qed

text \<open>
  Claim C6. On a source that starts with the tag \<open>XRAW\<close> and holds a complete header
  whose first byte after the tag selects an entry of \<open>color_channel_data_types\<close>,
  \<open>read_header\<close> makes nine reads and consumes exactly 24 bytes: the tag, then one
  signed byte each for the channel type index, the number of channels, the bits per
  channel and the bits per index (the last two divided by 8), then four bytes each,
  little-endian and unsigned, for width, height, depth and the number of palette
  colours, in this order. \<open>write_header\<close> appends the same 24 bytes in the same order to
  an open file: the tag, the four bytes, and the four numbers in four little-endian
  bytes each.
\<close>

theorem header_layout:
  assumes src: "content (parser.file ps) =
      [88, 82, 65, 87] @ [t, c, bc, bi] @ [w0, w1, w2, w3] @ [h0, h1, h2, h3]
        @ [d0, d1, d2, d3] @ [n0, n1, n2, n3] @ rest"
    and ty: "list_get color_channel_data_types (sint t) = Inr ty"
    and op: "is_open ws"
    and fmt: "writer.format_string ws = ''XRAW''"
    and idx: "list_index color_channel_data_types (writer.color_channel_data_type ws) = Inr i"
    and ch: "0 \<le> writer.num_of_color_channels ws" "writer.num_of_color_channels ws < 256"
    and bpc: "0 \<le> writer.bytes_per_channel ws" "writer.bytes_per_channel ws < 32"
    and bpi: "0 \<le> writer.bytes_per_index ws" "writer.bytes_per_index ws < 32"
    and w: "0 \<le> writer.width ws" "writer.width ws < 2 ^ 32"
    and h: "0 \<le> writer.height ws" "writer.height ws < 2 ^ 32"
    and d: "0 \<le> writer.depth ws" "writer.depth ws < 2 ^ 32"
    and n: "0 \<le> writer.num_of_pallette_colors ws" "writer.num_of_pallette_colors ws < 2 ^ 32"
  shows "read_header ps =
     (Inr (),
      ps\<lparr>parser.file := \<lparr>content = rest, read_calls = read_calls (parser.file ps) + 9\<rparr>,
        parser.color_channel_data_type := ty,
        parser.num_of_color_channels := sint c,
        parser.bytes_per_channel := sint bc div 8,
        parser.bytes_per_index := sint bi div 8,
        parser.width := int_from_bytes [w0, w1, w2, w3],
        parser.height := int_from_bytes [h0, h1, h2, h3],
        parser.depth := int_from_bytes [d0, d1, d2, d3],
        parser.num_of_pallette_colors := int_from_bytes [n0, n1, n2, n3]\<rparr>)
    \<and> write_header ws =
     (Inr (),
      appended
        ([88, 82, 65, 87]
         @ [word_of_int i, word_of_int (writer.num_of_color_channels ws),
            word_of_int (writer.bytes_per_channel ws * 8),
            word_of_int (writer.bytes_per_index ws * 8)]
         @ le_bytes 4 (writer.width ws) @ le_bytes 4 (writer.height ws)
         @ le_bytes 4 (writer.depth ws) @ le_bytes 4 (writer.num_of_pallette_colors ws)) ws)
    \<and> length ([88, 82, 65, 87]
         @ [word_of_int i, word_of_int (writer.num_of_color_channels ws),
            word_of_int (writer.bytes_per_channel ws * 8),
            word_of_int (writer.bytes_per_index ws * 8) :: byte]
         @ le_bytes 4 (writer.width ws) @ le_bytes 4 (writer.height ws)
         @ le_bytes 4 (writer.depth ws) @ le_bytes 4 (writer.num_of_pallette_colors ws)) = 24"
proof -
  have len: "length (le_bytes k v) = k" for k v
    by (induction k arbitrary: v) simp_all
  show ?thesis
    using read_header_result [OF src ty]
      write_header_result [OF op fmt idx ch bpc bpi w h d n]
    by (simp add: len del: le_bytes.simps int_from_bytes.simps)
qed

theorem header_layout_witness:
  "read_header (XRawVolumeParser_init truncated_file) =
     (Inr (),
      (XRawVolumeParser_init truncated_file)
       \<lparr>parser.file := \<lparr>content = [], read_calls = 9\<rparr>,
        parser.color_channel_data_type := CHR ''I'',
        parser.num_of_color_channels := 4,
        parser.bytes_per_channel := 1,
        parser.bytes_per_index := 1,
        parser.width := 1,
        parser.height := 1,
        parser.depth := 1,
        parser.num_of_pallette_colors := 0\<rparr>)
   \<and> write_header open_default_writer =
     (Inr (),
      appended [88, 82, 65, 87, 0, 4, 8, 8, 1, 0, 0, 0, 1, 0, 0, 0, 1, 0, 0, 0, 0, 1, 0, 0]
        open_default_writer)"
proof -
  have src: "content (parser.file (XRawVolumeParser_init truncated_file)) =
      [88, 82, 65, 87] @ [0, 4, 8, 8] @ [1, 0, 0, 0] @ [1, 0, 0, 0]
        @ [1, 0, 0, 0] @ [0, 0, 0, 0] @ []"
    by (simp add: XRawVolumeParser_init_def truncated_file_def)
  have ty: "list_get color_channel_data_types (sint (0 :: byte)) = Inr (CHR ''I'')"
    by (simp add: list_get_def color_channel_data_types_def)
  have op: "is_open open_default_writer"
    by (simp add: is_open_def open_default_writer_def)
  have fmt: "writer.format_string open_default_writer = ''XRAW''"
    by (simp add: open_default_writer_def)
  have idx: "list_index color_channel_data_types
      (writer.color_channel_data_type open_default_writer) = Inr 0"
    by (simp add: open_default_writer_def color_channel_data_types_def)
  have ch: "0 \<le> writer.num_of_color_channels open_default_writer"
    "writer.num_of_color_channels open_default_writer < 256"
    by (simp_all add: open_default_writer_def)
  have bpc: "0 \<le> writer.bytes_per_channel open_default_writer"
    "writer.bytes_per_channel open_default_writer < 32"
    by (simp_all add: open_default_writer_def)
  have bpi: "0 \<le> writer.bytes_per_index open_default_writer"
    "writer.bytes_per_index open_default_writer < 32"
    by (simp_all add: open_default_writer_def)
  have w: "0 \<le> writer.width open_default_writer" "writer.width open_default_writer < 2 ^ 32"
    by (simp_all add: open_default_writer_def)
  have h: "0 \<le> writer.height open_default_writer" "writer.height open_default_writer < 2 ^ 32"
    by (simp_all add: open_default_writer_def)
  have d: "0 \<le> writer.depth open_default_writer" "writer.depth open_default_writer < 2 ^ 32"
    by (simp_all add: open_default_writer_def)
  have n: "0 \<le> writer.num_of_pallette_colors open_default_writer"
    "writer.num_of_pallette_colors open_default_writer < 2 ^ 32"
    by (simp_all add: open_default_writer_def)
  have le: "le_bytes 4 1 = [1, 0, 0, 0]" "le_bytes 4 256 = [0, 1, 0, 0]"
    by code_simp+
  have fields: "writer.num_of_color_channels open_default_writer = 4"
    "writer.bytes_per_channel open_default_writer = 1"
    "writer.bytes_per_index open_default_writer = 1"
    "writer.width open_default_writer = 1" "writer.height open_default_writer = 1"
    "writer.depth open_default_writer = 1"
    "writer.num_of_pallette_colors open_default_writer = 256"
    by (simp_all add: open_default_writer_def)
  from header_layout [OF src ty op fmt idx ch bpc bpi w h d n]
  show ?thesis
    by (simp add: fields le XRawVolumeParser_init_def del: le_bytes.simps)
qed



subsection \<open>Evaluations at sample inputs\<close>

text \<open>
  Claim C2, at the file \<open>truncated_file\<close>: its header announces a volume of
  \<open>1 \<times> 1 \<times> 1\<close> voxels of one byte each and a palette without colours, and the file
  ends right after the header. \<open>parse\<close> does not raise: the read of the voxel returns
  the empty byte string, which \<open>int.from_bytes\<close> decodes as 0, and the dictionary is
  returned with a zero-filled voxel buffer.
\<close>

theorem parse_truncated_file_returns:
  "fst (parse False (XRawVolumeParser_init truncated_file)) =
     Inr [(''width'', DInt 1), (''height'', DInt 1), (''depth'', DInt 1),
          (''num_of_pallette_colors'', DInt 0),
          (''voxels'', DArray \<lparr>shape = [1, 1, 1], items = [F64_of_int 0]\<rparr>),
          (''palette'', DArray \<lparr>shape = [0, 4], items = []\<rparr>)]"
  by code_simp

text \<open>
  Claim C9 as stated fails: with the single voxel index 256 \<open>write_file\<close> does not
  succeed. \<open>bytes([256])\<close> raises \<open>ValueError\<close>, after the header has been written.
\<close>

theorem write_file_256_counterexample:
  "fst (write_file ''out.xraw'' (projr (XRawVolumeWriter_init voxels_256 palette_1x1))) =
     Inl (ValueError ''bytes must be in range(0, 256)'')"
  by code_simp

text \<open>
  Claim C1 as stated fails: a palette of one colour with 128 channels, all 0, is
  written without error, but the parser reads the channel count as the signed byte
  \<open>-128\<close> and \<open>np.zeros\<close> refuses the negative dimension.
\<close>

theorem roundtrip_128_channels_counterexample:
  "fst (write_file ''out.xraw'' (projr (XRawVolumeWriter_init voxels_1x1x1 palette_1x128))) = Inr ()
   \<and> fst (parse False (XRawVolumeParser_init (file_bytes (snd
        (write_file ''out.xraw'' (projr (XRawVolumeWriter_init voxels_1x1x1 palette_1x128)))))))
      = Inl (ValueError ''negative dimensions are not allowed'')"
  by code_simp

text \<open>
  Claim C10 as stated fails: nested lists and omitted arguments are not the only
  arguments accepted. A numpy array with a single element passes the comparison with
  \<open>None\<close>: the constructor accepts a \<open>1 \<times> 1 \<times> 1\<close> array of voxels and a \<open>1 \<times> 1\<close> array as
  palette, and \<open>write_file\<close> writes the volume.
\<close>

theorem init_one_element_ndarray_counterexample:
  "XRawVolumeWriter_init (PyNdarray (np_full [1, 1, 1] 7)) (PyNdarray (np_full [1, 1] 9)) =
     Inr \<lparr>voxels = np_full [1, 1, 1] 7, palette = np_full [1, 1] 9, format_string = ''XRAW'',
          color_channel_data_type = CHR ''I'', bytes_per_channel = 1, bytes_per_index = 1,
          width = 1, height = 1, depth = 1, num_of_pallette_colors = 1,
          num_of_color_channels = 1, file = None\<rparr>
   \<and> fst (write_file ''out.xraw'' (projr
        (XRawVolumeWriter_init (PyNdarray (np_full [1, 1, 1] 7)) (PyNdarray (np_full [1, 1] 9))))) =
      Inr ()
   \<and> file_bytes (snd (write_file ''out.xraw'' (projr
        (XRawVolumeWriter_init (PyNdarray (np_full [1, 1, 1] 7)) (PyNdarray (np_full [1, 1] 9)))))) =
      [88, 82, 65, 87, 0, 1, 8, 8, 1, 0, 0, 0, 1, 0, 0, 0, 1, 0, 0, 0, 1, 0, 0, 0, 7, 9]"
  by code_simp

text \<open>
  Two headers that the buffer readers refuse. With the extents
  \<open>4294967295 \<times> 4294967295 \<times> 0\<close> the voxel buffer is too big for \<open>np.zeros\<close>, although it has
  no cell; with the bit width \<open>0xF0\<close> for an index, the signed byte \<open>-16\<close>, the reader asks
  the file for \<open>-2\<close> bytes.
\<close>

lemma parse_too_big_volume:
  "fst (parse False (XRawVolumeParser_init
     [88, 82, 65, 87, 0, 4, 8, 8, 255, 255, 255, 255, 255, 255, 255, 255,
      0, 0, 0, 0, 0, 0, 0, 0])) =
   Inl (ValueError ''array is too big; `arr.size * arr.dtype.itemsize` is larger than the maximum possible size.'')"
  by code_simp

lemma parse_negative_index_width:
  "fst (parse False (XRawVolumeParser_init
     [88, 82, 65, 87, 0, 4, 8, 240, 1, 0, 0, 0, 1, 0, 0, 0, 1, 0, 0, 0, 0, 0, 0, 0, 5])) =
   Inl (ValueError ''read length must be non-negative or -1'')"
  by code_simp


subsection \<open>Loops\<close>

lemma for_loop_append:
  "for_loop (xs @ ys) body s =
     (case for_loop xs body s of (Inl e, s') \<Rightarrow> (Inl e, s') | (Inr u, s') \<Rightarrow> for_loop ys body s')"
  by (induction xs arbitrary: s) (auto split: prod.splits sum.splits)

text \<open>A loop over \<open>range(m)\<close> whose body never raises establishes \<open>Q m\<close> from \<open>Q 0\<close> when
  iteration \<open>k\<close> leads from \<open>Q k\<close> to \<open>Q (k + 1)\<close>.\<close>

lemma for_loop_upt_inv:
  assumes "Q 0 s"
    and "\<And>k s. k < m \<Longrightarrow> Q k s \<Longrightarrow> \<exists>s'. body k s = (Inr (), s') \<and> Q (Suc k) s'"
  shows "\<exists>s'. for_loop [0..<m] body s = (Inr (), s') \<and> Q m s'"
  using assms
proof (induction m)
  case 0
  then show ?case by simp
next
  case (Suc m)
  from Suc.IH [OF Suc.prems(1)] Suc.prems(2)
  obtain s1 where s1: "for_loop [0..<m] body s = (Inr (), s1)" "Q m s1"
    by (metis less_Suc_eq)
  from Suc.prems(2) [of m s1] s1(2)
  obtain s2 where "body m s1 = (Inr (), s2)" "Q (Suc m) s2"
    by auto
  with s1 show ?case
    by (simp add: for_loop_append)
qed

lemma mixed_radix_inj:
  fixes i j i' j' m :: nat
  assumes "j < m" and "j' < m" and "i * m + j = i' * m + j'"
  shows "i = i' \<and> j = j'"
proof -
  from assms have "(i * m + j) div m = (i' * m + j') div m" "(i * m + j) mod m = (i' * m + j') mod m"
    by simp_all
  with assms(1,2) show ?thesis
    by simp
qed

lemma mixed_radix_less:
  fixes i j n m :: nat
  assumes "i < n" and "j < m"
  shows "i * m + j < n * m"
proof -
  from assms have "Suc i \<le> n" by simp
  then have "Suc i * m \<le> n * m"
    by (rule mult_le_mono1)
  with assms(2) show ?thesis
    by simp
qed

lemma index3_inj:
  fixes a b c a' b' c' :: nat
  assumes "b < B" "b' < B" "c < C" "c' < C"
  shows "(a * B + b) * C + c = (a' * B + b') * C + c' \<longleftrightarrow> a = a' \<and> b = b' \<and> c = c'"
  using mixed_radix_inj [OF assms(3,4), of "a * B + b" "a' * B + b'"]
    mixed_radix_inj [OF assms(1,2), of a a']
  by auto

lemma index3_less:
  fixes a b c :: nat
  assumes "a < A" "b < B" "c < C"
  shows "(a * B + b) * C + c < A * B * C"
  using mixed_radix_less [OF mixed_radix_less [OF assms(1,2)] assms(3)] by simp

lemma drop_length_take: "drop (length (take n xs)) xs = drop n xs"
  by (cases "n \<le> length xs") (simp_all add: min_def)

subsection \<open>Reading the voxel buffer\<close>

lemma array_set_3:
  assumes "shape a = [W, H, D]" and "x < W" and "y < H" and "z < D"
  shows "array_set a [x, y, z] v = Inr (a\<lparr>items := (items a)[(x * H + y) * D + z := v]\<rparr>)"
  using assms by (simp add: array_set_def in_bounds_def algebra_simps)

lemma array_get_3:
  assumes "shape a = [W, H, D]" and "x < W" and "y < H" and "z < D"
  shows "array_get a [x, y, z] = Inr (Item (items a ! ((x * H + y) * D + z)))"
  using assms by (simp add: array_get_def in_bounds_def algebra_simps)

lemma int_from_bytes_bounds:
  "0 \<le> int_from_bytes bs \<and> int_from_bytes bs < 256 ^ length bs"
proof (induction bs)
  case Nil
  then show ?case by simp
next
  case (Cons b bs)
  have "0 \<le> uint b" "uint b < 256"
    using uint_bounded [of b] by simp_all
  with Cons show ?case
    by simp
qed

lemma store_float64_bytes:
  assumes "length bs \<le> 127"
  shows "store_float64 (int_from_bytes bs) = Inr (float64_of_int (int_from_bytes bs))"
proof -
  from int_from_bytes_bounds [of bs]
  have b: "0 \<le> int_from_bytes bs" "int_from_bytes bs < 256 ^ length bs"
    by simp_all
  from assms have "(256 :: int) ^ length bs \<le> 256 ^ 127"
    by (intro power_increasing) simp_all
  also have "(256 :: int) ^ 127 < 2 ^ 1024 - 2 ^ 970"
    by simp
  finally have "(256 :: int) ^ length bs < 2 ^ 1024 - 2 ^ 970" .
  with b show ?thesis
    by (simp add: store_float64_def)
qed

lemma read_voxel_step:
  assumes s: "s = s0\<lparr>parser.file := \<lparr>content = drop (k * n) src, read_calls = r\<rparr>,
                     parser.voxels := \<lparr>shape = [W, H, D], items = its\<rparr>\<rparr>"
    and bpi: "parser.bytes_per_index s0 = int n" and nb: "n \<le> 127"
    and xyz: "x < W" "y < H" "z < D"
  shows "read_voxel z y x s =
     (Inr (),
      s0\<lparr>parser.file := \<lparr>content = drop (Suc k * n) src, read_calls = Suc r\<rparr>,
         parser.voxels := \<lparr>shape = [W, H, D],
           items = its[(x * H + y) * D + z :=
             float64_of_int (int_from_bytes (take n (drop (k * n) src)))]\<rparr>\<rparr>)"
proof -
  have "drop (length (take n (drop (k * n) src))) (drop (k * n) src) = drop (Suc k * n) src"
    by (simp only: drop_length_take) (simp add: add.commute)
  moreover from nb have "store_float64 (int_from_bytes (take n (drop (k * n) src))) =
      Inr (float64_of_int (int_from_bytes (take n (drop (k * n) src))))"
    by (intro store_float64_bytes) simp
  ultimately show ?thesis
    unfolding read_voxel_def s
    using bpi array_set_3 [of "\<lparr>shape = [W, H, D], items = its\<rparr>" W H D x y z] xyz
    by (simp add: seq_def file_read_def lift_def modify_def Let_def)
qed


subsection \<open>Allocating the buffers\<close>

lemma nbytes_of_result:
  "(\<And>d. d \<in> set ds \<Longrightarrow> 0 \<le> d) \<Longrightarrow> 0 < nbytes \<Longrightarrow>
   nbytes * prod_list (map (max 1) ds) < 2 ^ 63 \<Longrightarrow>
   nbytes_of ds nbytes = Inr (nbytes * prod_list (map (max 1) ds))"
proof (induction ds arbitrary: nbytes)
  case Nil
  then show ?case by simp
next
  case (Cons d ds)
  have d0: "0 \<le> d" using Cons.prems(1) by simp
  have p1: "1 \<le> prod_list (map (max 1) ds)"
  proof (induction ds)
    case Nil
    show ?case by simp
  next
    case (Cons a as)
    have "1 * 1 \<le> max 1 a * prod_list (map (max 1) as)"
      by (rule mult_mono) (use Cons in auto)
    then show ?case by simp
  qed
  show ?case
  proof (cases "d = 0")
    case True
    then show ?thesis using Cons.IH [of nbytes] Cons.prems by simp
  next
    case False
    then have dp: "0 < d" "max 1 d = d" using d0 by auto
    have nd: "0 < nbytes * d" using Cons.prems(2) dp by simp
    have "nbytes * d * 1 \<le> nbytes * d * prod_list (map (max 1) ds)"
      using nd p1 by (intro mult_left_mono) auto
    then have small: "nbytes * d < 2 ^ 63" using Cons.prems(3) dp by (simp add: mult.assoc)
    have "nbytes_of ds (nbytes * d) = Inr (nbytes * d * prod_list (map (max 1) ds))"
      using Cons.prems dp nd by (intro Cons.IH) (auto simp: mult.assoc)
    then show ?thesis using dp small False by (simp add: mult.assoc)
  qed
qed

lemma np_zeros_nat:
  assumes "8 * prod_list (map (max 1) ds) < (2 :: nat) ^ 63"
  shows "np_zeros (map int ds) = Inr (zeros ds)"
proof -
  have e: "prod_list (map (max 1) (map int ds)) = int (prod_list (map (max 1) ds))"
    by (induction ds) (auto simp: max_def)
  have "int (8 * prod_list (map (max 1) ds)) < int (2 ^ 63)"
    using assms by (simp only: of_nat_less_iff)
  then have "8 * int (prod_list (map (max 1) ds)) < (2 :: int) ^ 63"
    by simp
  then have "8 * prod_list (map (max 1) (map int ds)) < (2 :: int) ^ 63"
    by (simp only: e)
  then have "nbytes_of (map int ds) 8 = Inr (8 * prod_list (map (max 1) (map int ds)))"
    by (intro nbytes_of_result) auto
  then show ?thesis by (simp add: np_zeros_def comp_def)
qed

lemma np_zeros_3:
  "8 * (max 1 W * max 1 H * max 1 D) < (2 :: nat) ^ 63 \<Longrightarrow>
   np_zeros [int W, int H, int D] = Inr (zeros [W, H, D])"
  using np_zeros_nat [of "[W, H, D]"] by (simp add: mult.assoc)

lemma np_zeros_2:
  "8 * (max 1 N * max 1 C) < (2 :: nat) ^ 63 \<Longrightarrow>
   np_zeros [int N, int C] = Inr (zeros [N, C])"
  using np_zeros_nat [of "[N, C]"] by simp


lemma read_voxels_loops:
  fixes s0 :: parser
  assumes w: "parser.width s0 = int W" and h: "parser.height s0 = int H"
    and d: "parser.depth s0 = int D" and bpi: "parser.bytes_per_index s0 = int n"
    and nb: "n \<le> 127"
    and f: "parser.file s0 = \<lparr>content = src, read_calls = r\<rparr>"
    and v: "parser.voxels s0 = zeros [W, H, D]"
  shows "\<exists>its.
     for_loop (py_range (parser.depth s0)) (\<lambda>z s.
       for_loop (py_range (parser.height s)) (\<lambda>y s.
         for_loop (py_range (parser.width s)) (\<lambda>x. read_voxel z y x) s) s) s0 =
       (Inr (),
        s0\<lparr>parser.file := \<lparr>content = drop (D * H * W * n) src, read_calls = r + D * H * W\<rparr>,
           parser.voxels := \<lparr>shape = [W, H, D], items = its\<rparr>\<rparr>)
     \<and> length its = W * H * D
     \<and> (\<forall>x<W. \<forall>y<H. \<forall>z<D.
          its ! ((x * H + y) * D + z) =
            float64_of_int (int_from_bytes (take n (drop (((z * H + y) * W + x) * n) src))))"
proof -
  define cell where "cell j = float64_of_int (int_from_bytes (take n (drop (j * n) src)))" for j
  define P where "P k s \<longleftrightarrow>
    (\<exists>its. s = s0\<lparr>parser.file := \<lparr>content = drop (k * n) src, read_calls = r + k\<rparr>,
                   parser.voxels := \<lparr>shape = [W, H, D], items = its\<rparr>\<rparr>
       \<and> length its = W * H * D
       \<and> (\<forall>x<W. \<forall>y<H. \<forall>z<D.
            its ! ((x * H + y) * D + z) =
              (if (z * H + y) * W + x < k then cell ((z * H + y) * W + x) else F64_of_int 0)))"
    for k s
  have P0: "P 0 s0"
  proof -
    have "s0 = s0\<lparr>parser.file := \<lparr>content = drop (0 * n) src, read_calls = r + 0\<rparr>,
                  parser.voxels := \<lparr>shape = [W, H, D],
                     items = replicate (W * H * D) (F64_of_int 0)\<rparr>\<rparr>"
      using f v by (simp add: zeros_def)
    moreover have "\<forall>x<W. \<forall>y<H. \<forall>z<D.
        replicate (W * H * D) (F64_of_int 0) ! ((x * H + y) * D + z) = F64_of_int 0"
      by (simp add: index3_less)
    ultimately show ?thesis
      unfolding P_def by (intro exI [of _ "replicate (W * H * D) (F64_of_int 0)"]) simp
  qed
  have dims: "parser.width s = int W \<and> parser.height s = int H" if "P k s" for k s
    using that w h by (auto simp: P_def)
  have step: "\<exists>s'. read_voxel z y x s = (Inr (), s') \<and> P (Suc ((z * H + y) * W + x)) s'"
    if xyz: "x < W" "y < H" "z < D" and P: "P ((z * H + y) * W + x) s" for x y z s
  proof -
    let ?k = "(z * H + y) * W + x"
    from P obtain its where
      s: "s = s0\<lparr>parser.file := \<lparr>content = drop (?k * n) src, read_calls = r + ?k\<rparr>,
                  parser.voxels := \<lparr>shape = [W, H, D], items = its\<rparr>\<rparr>"
      and len: "length its = W * H * D"
      and cells: "\<forall>x<W. \<forall>y<H. \<forall>z<D. its ! ((x * H + y) * D + z) =
              (if (z * H + y) * W + x < ?k then cell ((z * H + y) * W + x) else F64_of_int 0)"
      unfolding P_def by blast
    let ?its = "its[(x * H + y) * D + z := cell ?k]"
    have run: "read_voxel z y x s =
      (Inr (), s0\<lparr>parser.file := \<lparr>content = drop (Suc ?k * n) src, read_calls = Suc (r + ?k)\<rparr>,
                   parser.voxels := \<lparr>shape = [W, H, D], items = ?its\<rparr>\<rparr>)"
      unfolding cell_def by (rule read_voxel_step [OF s bpi nb xyz])
    have "?its ! ((x' * H + y') * D + z') =
        (if (z' * H + y') * W + x' < Suc ?k then cell ((z' * H + y') * W + x') else F64_of_int 0)"
      if b: "x' < W" "y' < H" "z' < D" for x' y' z'
    proof (cases "x' = x \<and> y' = y \<and> z' = z")
      case True
      with len index3_less [OF xyz] show ?thesis
        by simp
    next
      case False
      then have ne: "(x' * H + y') * D + z' \<noteq> (x * H + y) * D + z"
        using index3_inj [OF b(2) xyz(2) b(3) xyz(3), of x' x] by simp
      from False have nk: "(z' * H + y') * W + x' \<noteq> ?k"
        using index3_inj [OF b(2) xyz(2) b(1) xyz(1), of z' z] by auto
      from cells b have "its ! ((x' * H + y') * D + z') =
          (if (z' * H + y') * W + x' < ?k then cell ((z' * H + y') * W + x') else F64_of_int 0)"
        by blast
      with ne nk show ?thesis
        by (auto simp: less_Suc_eq)
    qed
    then have "P (Suc ?k) (s0\<lparr>parser.file := \<lparr>content = drop (Suc ?k * n) src, read_calls = Suc (r + ?k)\<rparr>,
                   parser.voxels := \<lparr>shape = [W, H, D], items = ?its\<rparr>\<rparr>)"
      unfolding P_def using len by (intro exI [of _ ?its]) simp
    with run show ?thesis
      by blast
  qed
  have inner: "\<exists>s'. for_loop [0..<W] (\<lambda>x. read_voxel z y x) s = (Inr (), s') \<and> P ((z * H + Suc y) * W) s'"
    if yz: "y < H" "z < D" and P: "P ((z * H + y) * W) s" for y z s
  proof -
    have "\<exists>s'. for_loop [0..<W] (\<lambda>x. read_voxel z y x) s = (Inr (), s')
        \<and> P ((z * H + y) * W + W) s'"
      by (rule for_loop_upt_inv [where Q = "\<lambda>k. P ((z * H + y) * W + k)"])
         (use P step [OF _ yz] in auto)
    then show ?thesis
      by (simp add: algebra_simps)
  qed
  have middle: "\<exists>s'. for_loop [0..<H] (\<lambda>y s. for_loop (py_range (parser.width s))
        (\<lambda>x. read_voxel z y x) s) s = (Inr (), s') \<and> P (Suc z * H * W) s'"
    if z: "z < D" and P: "P (z * H * W) s" for z s
  proof -
    have "\<exists>s'. for_loop [0..<H] (\<lambda>y s. for_loop (py_range (parser.width s))
        (\<lambda>x. read_voxel z y x) s) s = (Inr (), s') \<and> P ((z * H + H) * W) s'"
    proof (rule for_loop_upt_inv [where Q = "\<lambda>k. P ((z * H + k) * W)"])
      show "P ((z * H + 0) * W) s"
        using P by simp
    next
      fix k s
      assume "k < H" "P ((z * H + k) * W) s"
      with inner [OF _ z, of k s] dims [of "(z * H + k) * W" s]
      show "\<exists>s'. for_loop (py_range (parser.width s)) (\<lambda>x. read_voxel z k x) s = (Inr (), s')
          \<and> P ((z * H + Suc k) * W) s'"
        by (simp add: py_range_def)
    qed
    then show ?thesis
      by (simp add: algebra_simps)
  qed
  have "\<exists>s'. for_loop [0..<D] (\<lambda>z s. for_loop (py_range (parser.height s)) (\<lambda>y s.
         for_loop (py_range (parser.width s)) (\<lambda>x. read_voxel z y x) s) s) s0 = (Inr (), s')
       \<and> P (D * H * W) s'"
  proof (rule for_loop_upt_inv [where Q = "\<lambda>k. P (k * H * W)"])
    show "P (0 * H * W) s0"
      using P0 by simp
  next
    fix k s
    assume "k < D" "P (k * H * W) s"
    with middle [of k s] dims [of "k * H * W" s]
    show "\<exists>s'. for_loop (py_range (parser.height s)) (\<lambda>y s.
         for_loop (py_range (parser.width s)) (\<lambda>x. read_voxel k y x) s) s = (Inr (), s')
       \<and> P (Suc k * H * W) s'"
      by (simp add: py_range_def)
  qed
  then obtain s' where run: "for_loop [0..<D] (\<lambda>z s. for_loop (py_range (parser.height s)) (\<lambda>y s.
         for_loop (py_range (parser.width s)) (\<lambda>x. read_voxel z y x) s) s) s0 = (Inr (), s')"
    and P: "P (D * H * W) s'"
    by blast
  from P obtain its where
    s': "s' = s0\<lparr>parser.file := \<lparr>content = drop (D * H * W * n) src, read_calls = r + D * H * W\<rparr>,
                  parser.voxels := \<lparr>shape = [W, H, D], items = its\<rparr>\<rparr>"
    and len: "length its = W * H * D"
    and cells: "\<forall>x<W. \<forall>y<H. \<forall>z<D. its ! ((x * H + y) * D + z) =
       (if (z * H + y) * W + x < D * H * W then cell ((z * H + y) * W + x) else F64_of_int 0)"
    unfolding P_def by blast
  have "its ! ((x * H + y) * D + z) = cell ((z * H + y) * W + x)"
    if "x < W" "y < H" "z < D" for x y z
    using cells that index3_less [OF that(3,2,1)] by simp
  with run s' len show ?thesis
    unfolding cell_def using d by (intro exI [of _ its]) (simp add: py_range_def)
qed


lemma read_voxel_buffer_result:
  assumes w: "parser.width s = int W" and h: "parser.height s = int H"
    and d: "parser.depth s = int D" and bpi: "parser.bytes_per_index s = int n"
    and nb: "n \<le> 127"
    and big: "8 * (max 1 W * max 1 H * max 1 D) < 2 ^ 63"
    and f: "parser.file s = \<lparr>content = src, read_calls = r\<rparr>"
  shows "\<exists>its.
     read_voxel_buffer s =
       (Inr (),
        s\<lparr>parser.file := \<lparr>content = drop (D * H * W * n) src, read_calls = r + D * H * W\<rparr>,
          parser.voxels := \<lparr>shape = [W, H, D], items = its\<rparr>\<rparr>)
     \<and> length its = W * H * D
     \<and> (\<forall>x<W. \<forall>y<H. \<forall>z<D.
          its ! ((x * H + y) * D + z) =
            float64_of_int (int_from_bytes (take n (drop (((z * H + y) * W + x) * n) src))))"
proof -
  let ?s0 = "s\<lparr>parser.voxels := zeros [W, H, D]\<rparr>"
  have z: "np_zeros [parser.width s, parser.height s, parser.depth s] = Inr (zeros [W, H, D])"
    using w h d np_zeros_3 [OF big] by simp
  have run: "read_voxel_buffer s =
      for_loop (py_range (parser.depth ?s0)) (\<lambda>z s.
       for_loop (py_range (parser.height s)) (\<lambda>y s.
         for_loop (py_range (parser.width s)) (\<lambda>x. read_voxel z y x) s) s) ?s0"
    unfolding read_voxel_buffer_def by (simp add: seq_def lift_def modify_def z)
  from read_voxels_loops [of ?s0 W H D n src r] w h d bpi nb f
  show ?thesis
    unfolding run by simp
qed

subsection \<open>Reading the palette buffer\<close>

lemma array_set_2:
  assumes "shape a = [N, C]" and "i < N" and "c < C"
  shows "array_set a [i, c] v = Inr (a\<lparr>items := (items a)[i * C + c := v]\<rparr>)"
  using assms by (simp add: array_set_def in_bounds_def)

lemma array_get_2:
  assumes "shape a = [N, C]" and "i < N" and "c < C"
  shows "array_get a [i, c] = Inr (Item (items a ! (i * C + c)))"
  using assms by (simp add: array_get_def in_bounds_def)

lemma read_channel_step:
  assumes s: "s = s0\<lparr>parser.file := \<lparr>content = drop (k * m) src, read_calls = r\<rparr>,
                     parser.palette := \<lparr>shape = [N, C], items = its\<rparr>\<rparr>"
    and bpc: "parser.bytes_per_channel s0 = int m"
    and ty: "parser.color_channel_data_type s0 = ty"
    and ic: "i < N" "c < C"
    and ok: "unpack_channel ty (take m (drop (k * m) src) @ zero_bytes (4 - int m)) = Inr v"
  shows "read_channel i c s =
     (Inr (),
      s0\<lparr>parser.file := \<lparr>content = drop (Suc k * m) src, read_calls = Suc r\<rparr>,
         parser.palette := \<lparr>shape = [N, C], items = its[i * C + c := v]\<rparr>\<rparr>)"
proof -
  have "drop (length (take m (drop (k * m) src))) (drop (k * m) src) = drop (Suc k * m) src"
    by (simp only: drop_length_take) (simp add: add.commute)
  then show ?thesis
    unfolding read_channel_def s
    using bpc ty ok array_set_2 [of "\<lparr>shape = [N, C], items = its\<rparr>" N C i c] ic
    by (simp add: seq_def file_read_def lift_def modify_def Let_def)
qed

lemma read_palette_loops:
  fixes s0 :: parser
  assumes n: "parser.num_of_pallette_colors s0 = int N"
    and c: "parser.num_of_color_channels s0 = int C"
    and bpc: "parser.bytes_per_channel s0 = int m"
    and ty: "parser.color_channel_data_type s0 = ty"
    and f: "parser.file s0 = \<lparr>content = src, read_calls = r\<rparr>"
    and p: "parser.palette s0 = zeros [N, C]"
    and ok: "\<And>k. k < N * C \<Longrightarrow>
        unpack_channel ty (take m (drop (k * m) src) @ zero_bytes (4 - int m)) = Inr (cell k)"
  shows "\<exists>its.
     for_loop (py_range (parser.num_of_pallette_colors s0)) (\<lambda>i s.
       for_loop (py_range (parser.num_of_color_channels s)) (\<lambda>c. read_channel i c) s) s0 =
       (Inr (),
        s0\<lparr>parser.file := \<lparr>content = drop (N * C * m) src, read_calls = r + N * C\<rparr>,
           parser.palette := \<lparr>shape = [N, C], items = its\<rparr>\<rparr>)
     \<and> length its = N * C
     \<and> (\<forall>i<N. \<forall>c<C. its ! (i * C + c) = cell (i * C + c))"
proof -
  define P where "P k s \<longleftrightarrow>
    (\<exists>its. s = s0\<lparr>parser.file := \<lparr>content = drop (k * m) src, read_calls = r + k\<rparr>,
                   parser.palette := \<lparr>shape = [N, C], items = its\<rparr>\<rparr>
       \<and> length its = N * C
       \<and> (\<forall>j<N * C. its ! j = (if j < k then cell j else F64_of_int 0)))"
    for k s
  have P0: "P 0 s0"
  proof -
    have "s0 = s0\<lparr>parser.file := \<lparr>content = drop (0 * m) src, read_calls = r + 0\<rparr>,
                  parser.palette := \<lparr>shape = [N, C],
                     items = replicate (N * C) (F64_of_int 0)\<rparr>\<rparr>"
      using f p by (simp add: zeros_def)
    then show ?thesis
      unfolding P_def by (intro exI [of _ "replicate (N * C) (F64_of_int 0)"]) simp
  qed
  have dims: "parser.num_of_color_channels s = int C" if "P k s" for k s
    using that c by (auto simp: P_def)
  have step: "\<exists>s'. read_channel i c s = (Inr (), s') \<and> P (Suc (i * C + c)) s'"
    if ic: "i < N" "c < C" and P: "P (i * C + c) s" for i c s
  proof -
    let ?k = "i * C + c"
    from P obtain its where
      s: "s = s0\<lparr>parser.file := \<lparr>content = drop (?k * m) src, read_calls = r + ?k\<rparr>,
                  parser.palette := \<lparr>shape = [N, C], items = its\<rparr>\<rparr>"
      and len: "length its = N * C"
      and cells: "\<forall>j<N * C. its ! j = (if j < ?k then cell j else F64_of_int 0)"
      unfolding P_def by blast
    have k: "?k < N * C"
      by (rule mixed_radix_less [OF ic])
    let ?its = "its[?k := cell ?k]"
    have run: "read_channel i c s =
      (Inr (), s0\<lparr>parser.file := \<lparr>content = drop (Suc ?k * m) src, read_calls = Suc (r + ?k)\<rparr>,
                   parser.palette := \<lparr>shape = [N, C], items = ?its\<rparr>\<rparr>)"
      by (rule read_channel_step [OF s bpc ty ic ok [OF k]])
    have "\<forall>j<N * C. ?its ! j = (if j < Suc ?k then cell j else F64_of_int 0)"
      using cells len k by (auto simp: nth_list_update less_Suc_eq)
    then have "P (Suc ?k) (s0\<lparr>parser.file := \<lparr>content = drop (Suc ?k * m) src, read_calls = Suc (r + ?k)\<rparr>,
                   parser.palette := \<lparr>shape = [N, C], items = ?its\<rparr>\<rparr>)"
      unfolding P_def using len by (intro exI [of _ ?its]) simp
    with run show ?thesis
      by blast
  qed
  have inner: "\<exists>s'. for_loop [0..<C] (\<lambda>c. read_channel i c) s = (Inr (), s') \<and> P (Suc i * C) s'"
    if i: "i < N" and P: "P (i * C) s" for i s
  proof -
    have "\<exists>s'. for_loop [0..<C] (\<lambda>c. read_channel i c) s = (Inr (), s') \<and> P (i * C + C) s'"
      by (rule for_loop_upt_inv [where Q = "\<lambda>k. P (i * C + k)"])
         (use P step [OF i] in auto)
    then show ?thesis
      by (simp add: algebra_simps)
  qed
  have "\<exists>s'. for_loop [0..<N] (\<lambda>i s.
       for_loop (py_range (parser.num_of_color_channels s)) (\<lambda>c. read_channel i c) s) s0 = (Inr (), s')
       \<and> P (N * C) s'"
  proof (rule for_loop_upt_inv [where Q = "\<lambda>k. P (k * C)"])
    show "P (0 * C) s0"
      using P0 by simp
  next
    fix k s
    assume "k < N" "P (k * C) s"
    with inner [of k s] dims [of "k * C" s]
    show "\<exists>s'. for_loop (py_range (parser.num_of_color_channels s)) (\<lambda>c. read_channel k c) s = (Inr (), s')
       \<and> P (Suc k * C) s'"
      by (simp add: py_range_def)
  qed
  then obtain s' where run: "for_loop [0..<N] (\<lambda>i s.
       for_loop (py_range (parser.num_of_color_channels s)) (\<lambda>c. read_channel i c) s) s0 = (Inr (), s')"
    and P: "P (N * C) s'"
    by blast
  from P obtain its where
    s': "s' = s0\<lparr>parser.file := \<lparr>content = drop (N * C * m) src, read_calls = r + N * C\<rparr>,
                  parser.palette := \<lparr>shape = [N, C], items = its\<rparr>\<rparr>"
    and len: "length its = N * C"
    and cells: "\<forall>j<N * C. its ! j = (if j < N * C then cell j else F64_of_int 0)"
    unfolding P_def by blast
  have "its ! (i * C + c) = cell (i * C + c)" if "i < N" "c < C" for i c
    using cells mixed_radix_less [OF that] by simp
  with run s' len show ?thesis
    using n by (intro exI [of _ its]) (simp add: py_range_def)
qed

lemma read_palette_buffer_result:
  assumes n: "parser.num_of_pallette_colors s = int N"
    and c: "parser.num_of_color_channels s = int C"
    and bpc: "parser.bytes_per_channel s = int m"
    and ty: "parser.color_channel_data_type s = ty"
    and big: "8 * (max 1 N * max 1 C) < 2 ^ 63"
    and f: "parser.file s = \<lparr>content = src, read_calls = r\<rparr>"
    and ok: "\<And>k. k < N * C \<Longrightarrow>
        unpack_channel ty (take m (drop (k * m) src) @ zero_bytes (4 - int m)) = Inr (cell k)"
  shows "\<exists>its.
     read_palette_buffer s =
       (Inr (),
        s\<lparr>parser.file := \<lparr>content = drop (N * C * m) src, read_calls = r + N * C\<rparr>,
          parser.palette := \<lparr>shape = [N, C], items = its\<rparr>\<rparr>)
     \<and> length its = N * C
     \<and> (\<forall>i<N. \<forall>c<C. its ! (i * C + c) = cell (i * C + c))"
proof -
  let ?s0 = "s\<lparr>parser.palette := zeros [N, C]\<rparr>"
  have z: "np_zeros [parser.num_of_pallette_colors s, parser.num_of_color_channels s] =
      Inr (zeros [N, C])"
    using n c np_zeros_2 [OF big] by simp
  have run: "read_palette_buffer s =
      for_loop (py_range (parser.num_of_pallette_colors ?s0)) (\<lambda>i s.
       for_loop (py_range (parser.num_of_color_channels s)) (\<lambda>c. read_channel i c) s) ?s0"
    unfolding read_palette_buffer_def by (simp add: seq_def lift_def modify_def z)
  from read_palette_loops [of ?s0 N C m ty src r cell] n c bpc ty f ok
  show ?thesis
    unfolding run by simp
qed


subsection \<open>Writing the voxel and palette buffers\<close>

lemma write_voxel_step:
  assumes op: "is_open s" and sh: "shape (writer.voxels s) = [W, H, D]"
    and xyz: "x < W" "y < H" "z < D"
    and b: "byte_of_item (Item (items (writer.voxels s) ! ((x * H + y) * D + z))) = Inr b"
  shows "write_voxel z y x s = (Inr (), appended [b] s)"
proof -
  have "py_bytes [Item (items (writer.voxels s) ! ((x * H + y) * D + z))] = Inr [b]"
    using b by simp
  from write_bytes_open [OF op this] array_get_3 [OF sh xyz] show ?thesis
    by (simp add: write_voxel_def seq_def lift_def)
qed

lemma write_voxels_result:
  assumes op: "is_open s" and sh: "shape (writer.voxels s) = [W, H, D]"
    and w: "writer.width s = int W" and h: "writer.height s = int H"
    and d: "writer.depth s = int D"
    and ok: "\<And>x y z. x < W \<Longrightarrow> y < H \<Longrightarrow> z < D \<Longrightarrow>
       byte_of_item (Item (items (writer.voxels s) ! ((x * H + y) * D + z))) =
         Inr (cell ((z * H + y) * W + x))"
  shows "write_voxels s = (Inr (), appended (map cell [0..<D * H * W]) s)"
proof -
  define P where "P k t \<longleftrightarrow> t = appended (map cell [0..<k]) s" for k t
  have step: "\<exists>t'. write_voxel z y x t = (Inr (), t') \<and> P (Suc ((z * H + y) * W + x)) t'"
    if xyz: "x < W" "y < H" "z < D" and P: "P ((z * H + y) * W + x) t" for x y z t
  proof -
    from P have t: "t = appended (map cell [0..<(z * H + y) * W + x]) s"
      by (simp add: P_def)
    have "write_voxel z y x t = (Inr (), appended [cell ((z * H + y) * W + x)] t)"
      by (rule write_voxel_step [OF _ _ xyz]) (simp_all add: t op sh ok [OF xyz])
    then show ?thesis
      by (simp add: P_def t)
  qed
  have inner: "\<exists>t'. for_loop [0..<W] (\<lambda>x. write_voxel z y x) t = (Inr (), t') \<and> P ((z * H + Suc y) * W) t'"
    if yz: "y < H" "z < D" and P: "P ((z * H + y) * W) t" for y z t
  proof -
    have "\<exists>t'. for_loop [0..<W] (\<lambda>x. write_voxel z y x) t = (Inr (), t')
        \<and> P ((z * H + y) * W + W) t'"
      by (rule for_loop_upt_inv [where Q = "\<lambda>k. P ((z * H + y) * W + k)"])
         (use P step [OF _ yz] in auto)
    then show ?thesis
      by (simp add: algebra_simps)
  qed
  have dims: "writer.width t = int W \<and> writer.height t = int H" if "P k t" for k t
    using that w h by (simp add: P_def)
  have middle: "\<exists>t'. for_loop [0..<H] (\<lambda>y t. for_loop (py_range (writer.width t))
        (\<lambda>x. write_voxel z y x) t) t = (Inr (), t') \<and> P (Suc z * H * W) t'"
    if z: "z < D" and P: "P (z * H * W) t" for z t
  proof -
    have "\<exists>t'. for_loop [0..<H] (\<lambda>y t. for_loop (py_range (writer.width t))
        (\<lambda>x. write_voxel z y x) t) t = (Inr (), t') \<and> P ((z * H + H) * W) t'"
    proof (rule for_loop_upt_inv [where Q = "\<lambda>k. P ((z * H + k) * W)"])
      show "P ((z * H + 0) * W) t"
        using P by simp
    next
      fix k t
      assume "k < H" "P ((z * H + k) * W) t"
      with inner [OF _ z, of k t] dims [of "(z * H + k) * W" t]
      show "\<exists>t'. for_loop (py_range (writer.width t)) (\<lambda>x. write_voxel z k x) t = (Inr (), t')
          \<and> P ((z * H + Suc k) * W) t'"
        by (simp add: py_range_def)
    qed
    then show ?thesis
      by (simp add: algebra_simps)
  qed
  have "\<exists>t'. for_loop [0..<D] (\<lambda>z t. for_loop (py_range (writer.height t)) (\<lambda>y t.
         for_loop (py_range (writer.width t)) (\<lambda>x. write_voxel z y x) t) t) s = (Inr (), t')
       \<and> P (D * H * W) t'"
  proof (rule for_loop_upt_inv [where Q = "\<lambda>k. P (k * H * W)"])
    show "P (0 * H * W) s"
      by (simp add: P_def)
  next
    fix k t
    assume "k < D" "P (k * H * W) t"
    with middle [of k t] dims [of "k * H * W" t]
    show "\<exists>t'. for_loop (py_range (writer.height t)) (\<lambda>y t.
         for_loop (py_range (writer.width t)) (\<lambda>x. write_voxel k y x) t) t = (Inr (), t')
       \<and> P (Suc k * H * W) t'"
      by (simp add: py_range_def)
  qed
  then show ?thesis
    using d by (simp add: write_voxels_def py_range_def P_def)
qed

lemma write_channel_step:
  assumes op: "is_open s" and sh: "shape (writer.palette s) = [N, C]"
    and ic: "i < N" "c < C"
    and b: "byte_of_item (Item (items (writer.palette s) ! (i * C + c))) = Inr b"
  shows "write_channel i c s = (Inr (), appended [b] s)"
proof -
  have "py_bytes [Item (items (writer.palette s) ! (i * C + c))] = Inr [b]"
    using b by simp
  from write_bytes_open [OF op this] array_get_2 [OF sh ic] show ?thesis
    by (simp add: write_channel_def seq_def lift_def)
qed

lemma write_palette_result:
  assumes op: "is_open s" and sh: "shape (writer.palette s) = [N, C]"
    and n: "writer.num_of_pallette_colors s = int N"
    and c: "writer.num_of_color_channels s = int C"
    and ok: "\<And>k. k < N * C \<Longrightarrow>
       byte_of_item (Item (items (writer.palette s) ! k)) = Inr (cell k)"
  shows "write_palette s = (Inr (), appended (map cell [0..<N * C]) s)"
proof -
  define P where "P k t \<longleftrightarrow> t = appended (map cell [0..<k]) s" for k t
  have step: "\<exists>t'. write_channel i c t = (Inr (), t') \<and> P (Suc (i * C + c)) t'"
    if ic: "i < N" "c < C" and P: "P (i * C + c) t" for i c t
  proof -
    from P have t: "t = appended (map cell [0..<i * C + c]) s"
      by (simp add: P_def)
    have "write_channel i c t = (Inr (), appended [cell (i * C + c)] t)"
      by (rule write_channel_step [OF _ _ ic])
         (simp_all add: t op sh ok [OF mixed_radix_less [OF ic]])
    then show ?thesis
      by (simp add: P_def t)
  qed
  have inner: "\<exists>t'. for_loop [0..<C] (\<lambda>c. write_channel i c) t = (Inr (), t') \<and> P (Suc i * C) t'"
    if i: "i < N" and P: "P (i * C) t" for i t
  proof -
    have "\<exists>t'. for_loop [0..<C] (\<lambda>c. write_channel i c) t = (Inr (), t') \<and> P (i * C + C) t'"
      by (rule for_loop_upt_inv [where Q = "\<lambda>k. P (i * C + k)"])
         (use P step [OF i] in auto)
    then show ?thesis
      by (simp add: algebra_simps)
  qed
  have dims: "writer.num_of_color_channels t = int C" if "P k t" for k t
    using that c by (simp add: P_def)
  have "\<exists>t'. for_loop [0..<N] (\<lambda>i t.
       for_loop (py_range (writer.num_of_color_channels t)) (\<lambda>c. write_channel i c) t) s = (Inr (), t')
       \<and> P (N * C) t'"
  proof (rule for_loop_upt_inv [where Q = "\<lambda>k. P (k * C)"])
    show "P (0 * C) s"
      by (simp add: P_def)
  next
    fix k t
    assume "k < N" "P (k * C) t"
    with inner [of k t] dims [of "k * C" t]
    show "\<exists>t'. for_loop (py_range (writer.num_of_color_channels t)) (\<lambda>c. write_channel k c) t = (Inr (), t')
       \<and> P (Suc k * C) t'"
      by (simp add: py_range_def)
  qed
  then show ?thesis
    using n by (simp add: write_palette_def py_range_def P_def)
qed


subsection \<open>The order of the voxels and the decoding of the palette\<close>

lemma float64_of_int_exact: "\<bar>v\<bar> < 2 ^ 53 \<Longrightarrow> float64_of_int v = F64_of_int v"
  by (simp add: float64_of_int_def)

text \<open>
  Claim C7. For extents that \<open>np.zeros\<close> accepts (8 bytes for each cell fit a signed
  64-bit size, an extent of 0 counting as 1 there) and given the memory for the buffer,
  \<open>read_voxel_buffer\<close> does not raise. It makes one read of \<open>bytes_per_index\<close> bytes for
  each voxel, and the read with number \<open>(z * height + y) * width + x\<close> (x fastest, then
  y, then z) is the one stored in cell \<open>[x][y][z]\<close>: the cell holds the little-endian
  unsigned value of the bytes read, as a float64 (exactly, below \<open>2^53\<close>).
  \<open>write_voxels\<close>, on an open file and an array of integers between 0 and 255, appends
  one byte for each voxel, and the byte with number \<open>(z * height + y) * width + x\<close> is
  the one of cell \<open>[x][y][z]\<close>. (\<open>bytes_per_index\<close> is a signed byte divided by 8, at
  most 15; up to 127 bytes no value is too large for a float64.)
\<close>

theorem voxel_traversal_order:
  assumes w: "parser.width ps = int W" and h: "parser.height ps = int H"
    and d: "parser.depth ps = int D" and bpi: "parser.bytes_per_index ps = int n"
    and nb: "n \<le> 127"
    and big: "8 * (max 1 W * max 1 H * max 1 D) < 2 ^ 63"
    and f: "parser.file ps = \<lparr>content = src, read_calls = r\<rparr>"
    and op: "is_open ws" and sh: "shape (writer.voxels ws) = [W', H', D']"
    and w': "writer.width ws = int W'" and h': "writer.height ws = int H'"
    and d': "writer.depth ws = int D'"
    and ok: "\<And>x y z. x < W' \<Longrightarrow> y < H' \<Longrightarrow> z < D' \<Longrightarrow>
       \<exists>b. byte_of_item (Item (items (writer.voxels ws) ! ((x * H' + y) * D' + z))) = Inr b"
  shows "(\<exists>va. read_voxel_buffer ps =
            (Inr (),
             ps\<lparr>parser.file := \<lparr>content = drop (D * H * W * n) src, read_calls = r + D * H * W\<rparr>,
                parser.voxels := va\<rparr>)
          \<and> shape va = [W, H, D]
          \<and> (\<forall>x<W. \<forall>y<H. \<forall>z<D.
               array_get va [x, y, z] =
                 Inr (Item (float64_of_int
                   (int_from_bytes (take n (drop (((z * H + y) * W + x) * n) src)))))))
       \<and> (\<exists>bs. write_voxels ws = (Inr (), appended bs ws)
          \<and> length bs = D' * H' * W'
          \<and> (\<forall>x<W'. \<forall>y<H'. \<forall>z<D'.
               \<exists>it. array_get (writer.voxels ws) [x, y, z] = Inr it
                 \<and> byte_of_item it = Inr (bs ! ((z * H' + y) * W' + x))))"
proof
  from read_voxel_buffer_result [OF w h d bpi nb big f] obtain its where
    run: "read_voxel_buffer ps =
       (Inr (),
        ps\<lparr>parser.file := \<lparr>content = drop (D * H * W * n) src, read_calls = r + D * H * W\<rparr>,
          parser.voxels := \<lparr>shape = [W, H, D], items = its\<rparr>\<rparr>)"
    and cells: "\<forall>x<W. \<forall>y<H. \<forall>z<D.
          its ! ((x * H + y) * D + z) =
            float64_of_int (int_from_bytes (take n (drop (((z * H + y) * W + x) * n) src)))"
    by blast
  have "array_get \<lparr>shape = [W, H, D], items = its\<rparr> [x, y, z] =
      Inr (Item (float64_of_int (int_from_bytes (take n (drop (((z * H + y) * W + x) * n) src)))))"
    if "x < W" "y < H" "z < D" for x y z
    using array_get_3 [of "\<lparr>shape = [W, H, D], items = its\<rparr>" W H D x y z] that cells
    by simp
  with run show "\<exists>va. read_voxel_buffer ps =
            (Inr (),
             ps\<lparr>parser.file := \<lparr>content = drop (D * H * W * n) src, read_calls = r + D * H * W\<rparr>,
                parser.voxels := va\<rparr>)
          \<and> shape va = [W, H, D]
          \<and> (\<forall>x<W. \<forall>y<H. \<forall>z<D.
               array_get va [x, y, z] =
                 Inr (Item (float64_of_int
                   (int_from_bytes (take n (drop (((z * H + y) * W + x) * n) src))))))"
    by (intro exI [of _ "\<lparr>shape = [W, H, D], items = its\<rparr>"]) simp
next
  define cell where "cell j = projr (byte_of_item (Item (items (writer.voxels ws) !
      (((j mod W') * H' + (j div W') mod H') * D' + j div W' div H'))))" for j
  have c: "byte_of_item (Item (items (writer.voxels ws) ! ((x * H' + y) * D' + z))) =
         Inr (cell ((z * H' + y) * W' + x))"
    if "x < W'" "y < H'" "z < D'" for x y z
    using ok [OF that] that by (auto simp: cell_def)
  from write_voxels_result [OF op sh w' h' d' c]
  have run: "write_voxels ws = (Inr (), appended (map cell [0..<D' * H' * W']) ws)"
    by simp
  have "\<exists>it. array_get (writer.voxels ws) [x, y, z] = Inr it
          \<and> byte_of_item it = Inr (map cell [0..<D' * H' * W'] ! ((z * H' + y) * W' + x))"
    if "x < W'" "y < H'" "z < D'" for x y z
    using array_get_3 [OF sh that] c [OF that] index3_less [OF that(3,2,1)]
    by simp
  with run show "\<exists>bs. write_voxels ws = (Inr (), appended bs ws)
          \<and> length bs = D' * H' * W'
          \<and> (\<forall>x<W'. \<forall>y<H'. \<forall>z<D'.
               \<exists>it. array_get (writer.voxels ws) [x, y, z] = Inr it
                 \<and> byte_of_item it = Inr (bs ! ((z * H' + y) * W' + x)))"
    by (intro exI [of _ "map cell [0..<D' * H' * W']"]) simp
qed

theorem voxel_traversal_order_witness:
  "(\<exists>va. read_voxel_buffer sample_parser =
       (Inr (),
        sample_parser\<lparr>parser.file := \<lparr>content = [10, 20, 30, 40, 50, 60, 70, 80], read_calls = 11\<rparr>,
                      parser.voxels := va\<rparr>)
     \<and> array_get va [0, 0, 0] = Inr (Item (F64_of_int 1))
     \<and> array_get va [1, 0, 0] = Inr (Item (F64_of_int 2)))
   \<and> (\<exists>bs. write_voxels open_sample_writer = (Inr (), appended bs open_sample_writer)
        \<and> length bs = 2 \<and> bs ! 0 = 1 \<and> bs ! 1 = 2)"
proof -
  have w: "parser.width sample_parser = int 2" and h: "parser.height sample_parser = int 1"
    and d: "parser.depth sample_parser = int 1"
    and bpi: "parser.bytes_per_index sample_parser = int 1"
    and nb: "(1 :: nat) \<le> 127"
    and big: "8 * (max 1 2 * max 1 1 * max 1 1) < (2 :: nat) ^ 63"
    and f: "parser.file sample_parser =
      \<lparr>content = [1, 2, 10, 20, 30, 40, 50, 60, 70, 80], read_calls = 9\<rparr>"
    by (simp_all add: sample_parser_def XRawVolumeParser_init_def)
  have op: "is_open open_sample_writer"
    and sh: "shape (writer.voxels open_sample_writer) = [2, 1, 1]"
    and w': "writer.width open_sample_writer = int 2"
    and h': "writer.height open_sample_writer = int 1"
    and d': "writer.depth open_sample_writer = int 1"
    by (simp_all add: open_sample_writer_def is_open_def)
  have ok: "\<exists>b. byte_of_item (Item (items (writer.voxels open_sample_writer) !
        ((x * 1 + y) * 1 + z))) = Inr b"
    if "x < 2" "y < 1" "z < 1" for x y z :: nat
  proof -
    from that have "x = 0 \<or> x = 1" "y = 0" "z = 0"
      by auto
    then show ?thesis
      by (auto simp: open_sample_writer_def)
  qed
  have "(\<exists>va. read_voxel_buffer sample_parser =
       (Inr (),
        sample_parser\<lparr>parser.file := \<lparr>content = drop (1 * 1 * 2 * 1)
            [1, 2, 10, 20, 30, 40, 50, 60, 70, 80], read_calls = 9 + 1 * 1 * 2\<rparr>,
          parser.voxels := va\<rparr>)
      \<and> shape va = [2, 1, 1]
      \<and> (\<forall>x<2. \<forall>y<1. \<forall>z<1. array_get va [x, y, z] =
       Inr (Item (float64_of_int (int_from_bytes (take 1 (drop (((z * 1 + y) * 2 + x) * 1)
         [1, 2, 10, 20, 30, 40, 50, 60, 70, 80])))))))
    \<and> (\<exists>bs. write_voxels open_sample_writer = (Inr (), appended bs open_sample_writer)
      \<and> length bs = 1 * 1 * 2
      \<and> (\<forall>x<2. \<forall>y<1. \<forall>z<1.
       \<exists>it. array_get (writer.voxels open_sample_writer) [x, y, z] = Inr it
         \<and> byte_of_item it = Inr (bs ! ((z * 1 + y) * 2 + x))))"
    by (rule voxel_traversal_order [OF w h d bpi nb big f op sh w' h' d']) (rule ok)
  then obtain va bs where
    rd: "read_voxel_buffer sample_parser =
       (Inr (),
        sample_parser\<lparr>parser.file := \<lparr>content = drop (1 * 1 * 2 * 1)
            [1, 2, 10, 20, 30, 40, 50, 60, 70, 80], read_calls = 9 + 1 * 1 * 2\<rparr>,
          parser.voxels := va\<rparr>)"
    and cells: "\<forall>x<2. \<forall>y<1. \<forall>z<1. array_get va [x, y, z] =
       Inr (Item (float64_of_int (int_from_bytes (take 1 (drop (((z * 1 + y) * 2 + x) * 1)
         [1, 2, 10, 20, 30, 40, 50, 60, 70, 80])))))"
    and wr: "write_voxels open_sample_writer = (Inr (), appended bs open_sample_writer)"
    and len: "length bs = 1 * 1 * 2"
    and bytes: "\<forall>x<2. \<forall>y<1. \<forall>z<1.
       \<exists>it. array_get (writer.voxels open_sample_writer) [x, y, z] = Inr it
         \<and> byte_of_item it = Inr (bs ! ((z * 1 + y) * 2 + x))"
    by (elim exE conjE) (rule that; assumption)
  from cells [rule_format, of 0 0 0] cells [rule_format, of 1 0 0]
  have va: "array_get va [0, 0, 0] = Inr (Item (F64_of_int 1))"
    "array_get va [1, 0, 0] = Inr (Item (F64_of_int 2))"
    by (simp_all add: float64_of_int_def)
  have get: "array_get (writer.voxels open_sample_writer) [0, 0, 0] = Inr (Item (PyInt 1))"
    "array_get (writer.voxels open_sample_writer) [1, 0, 0] = Inr (Item (PyInt 2))"
    by (simp_all add: open_sample_writer_def array_get_def in_bounds_def)
  from bytes [rule_format, of 0 0 0] get(1) have b0: "bs ! 0 = 1"
    by simp
  from bytes [rule_format, of 1 0 0] get(2) have b1: "bs ! 1 = 2"
    by simp
  from rd va have "\<exists>va. read_voxel_buffer sample_parser =
       (Inr (),
        sample_parser\<lparr>parser.file := \<lparr>content = [10, 20, 30, 40, 50, 60, 70, 80], read_calls = 11\<rparr>,
                      parser.voxels := va\<rparr>)
     \<and> array_get va [0, 0, 0] = Inr (Item (F64_of_int 1))
     \<and> array_get va [1, 0, 0] = Inr (Item (F64_of_int 2))"
    by (intro exI [of _ va]) simp
  moreover from wr len b0 b1
  have "\<exists>bs. write_voxels open_sample_writer = (Inr (), appended bs open_sample_writer)
        \<and> length bs = 2 \<and> bs ! 0 = 1 \<and> bs ! 1 = 2"
    by (intro exI [of _ bs]) simp
  ultimately show ?thesis
    by (rule conjI)
qed


lemma unpack_channel_4:
  assumes "length bs = 4" and "0 \<le> t" and "t < 3"
  shows "unpack_channel (color_channel_data_types ! nat t) bs =
     Inr (if t = 0 then F64_of_int (int_from_bytes bs)
          else if t = 1 then
            F64_of_int (if int_from_bytes bs < 2 ^ 31 then int_from_bytes bs
                        else int_from_bytes bs - 2 ^ 32)
          else F64_of_f32 (word_of_int (int_from_bytes bs)))"
proof -
  from int_from_bytes_bounds [of bs] assms(1)
  have b: "0 \<le> int_from_bytes bs" "int_from_bytes bs < 2 ^ 32"
    by simp_all
  from assms(2,3) have "t = 0 \<or> t = 1 \<or> t = 2"
    by auto
  then show ?thesis
    using assms(1) b
    by (auto simp: unpack_channel_def color_channel_data_types_def unpack_I_def unpack_i_def
        unpack_f_def float64_of_int_def Let_def)
qed

lemma chunk_length:
  fixes k m n :: nat
  assumes "k < n" and "n * m \<le> length src"
  shows "length (take m (drop (k * m) src)) = m"
proof -
  from assms(1) have "Suc k * m \<le> n * m"
    by (intro mult_le_mono1) simp
  with assms(2) have "k * m + m \<le> length src"
    by simp
  then show ?thesis
    by simp
qed

text \<open>
  Claim C8. With \<open>bytes_per_channel\<close> in \<open>{1, 2, 4}\<close>, a channel type index \<open>t\<close> with
  \<open>0 \<le> t < 3\<close>, a palette that numpy can allocate (8 bytes for each cell fit a signed
  64-bit size, an extent of 0 counting as 1 there; every header does, with its colour
  count below \<open>2^32\<close> and at most 127 channels) and a source that holds the whole palette,
  \<open>read_palette_buffer\<close> makes
  one read of \<open>bytes_per_channel\<close> bytes for each channel of each colour, entry by
  entry, and cell \<open>[i][c]\<close> of the palette holds the four bytes made of the bytes read
  followed by zero bytes, decoded as an unsigned 32-bit integer (\<open>t = 0\<close>), as a signed
  32-bit integer (\<open>t = 1\<close>) or as a 32-bit float (\<open>t = 2\<close>, kept as its bit pattern).
\<close>

theorem palette_decoding:
  assumes n: "parser.num_of_pallette_colors ps = int N"
    and c: "parser.num_of_color_channels ps = int C"
    and bpc: "parser.bytes_per_channel ps = int m" and m: "m \<in> {1, 2, 4}"
    and t: "0 \<le> t" "t < 3"
    and ty: "parser.color_channel_data_type ps = color_channel_data_types ! nat t"
    and big: "8 * (max 1 N * max 1 C) < 2 ^ 63"
    and f: "parser.file ps = \<lparr>content = src, read_calls = r\<rparr>"
    and enough: "N * C * m \<le> length src"
  shows "\<exists>pa. read_palette_buffer ps =
           (Inr (),
            ps\<lparr>parser.file := \<lparr>content = drop (N * C * m) src, read_calls = r + N * C\<rparr>,
               parser.palette := pa\<rparr>)
         \<and> shape pa = [N, C]
         \<and> (\<forall>i<N. \<forall>c<C.
              length (take m (drop ((i * C + c) * m) src)) = m
              \<and> length (take m (drop ((i * C + c) * m) src) @ replicate (4 - m) 0) = 4
              \<and> array_get pa [i, c] =
                 Inr (Item
                   (let v = int_from_bytes
                        (take m (drop ((i * C + c) * m) src) @ replicate (4 - m) 0)
                    in if t = 0 then F64_of_int v
                       else if t = 1 then F64_of_int (if v < 2 ^ 31 then v else v - 2 ^ 32)
                       else F64_of_f32 (word_of_int v))))"
proof -
  define cell where "cell k =
     (let v = int_from_bytes (take m (drop (k * m) src) @ replicate (4 - m) 0)
      in if t = 0 then F64_of_int v
         else if t = 1 then F64_of_int (if v < 2 ^ 31 then v else v - 2 ^ 32)
         else F64_of_f32 (word_of_int v))" for k
  from m have m4: "m \<le> 4"
    by auto
  have len: "length (take m (drop (k * m) src)) = m" if "k < N * C" for k
    by (rule chunk_length [OF that enough])
  have pad: "zero_bytes (4 - int m) = replicate (4 - m) 0"
    using m4 by (simp add: zero_bytes_def nat_diff_distrib')
  have ok: "unpack_channel (color_channel_data_types ! nat t)
       (take m (drop (k * m) src) @ zero_bytes (4 - int m)) = Inr (cell k)"
    if "k < N * C" for k
  proof -
    have "length (take m (drop (k * m) src) @ replicate (4 - m) (0 :: byte)) = 4"
      using len [OF that] m4 by simp
    from unpack_channel_4 [OF this t] show ?thesis
      by (simp add: pad cell_def Let_def)
  qed
  from read_palette_buffer_result [OF n c bpc ty big f ok] obtain its where
    run: "read_palette_buffer ps =
       (Inr (),
        ps\<lparr>parser.file := \<lparr>content = drop (N * C * m) src, read_calls = r + N * C\<rparr>,
          parser.palette := \<lparr>shape = [N, C], items = its\<rparr>\<rparr>)"
    and cells: "\<forall>i<N. \<forall>c<C. its ! (i * C + c) = cell (i * C + c)"
    by blast
  have "length (take m (drop ((i * C + c) * m) src)) = m
      \<and> length (take m (drop ((i * C + c) * m) src) @ replicate (4 - m) (0 :: byte)) = 4
      \<and> array_get \<lparr>shape = [N, C], items = its\<rparr> [i, c] = Inr (Item (cell (i * C + c)))"
    if "i < N" "c < C" for i c
    using array_get_2 [of "\<lparr>shape = [N, C], items = its\<rparr>" N C i c] that cells
      len [OF mixed_radix_less [OF that]] m4
    by simp
  with run m4 show ?thesis
    unfolding cell_def by (intro exI [of _ "\<lparr>shape = [N, C], items = its\<rparr>"]) simp
qed

theorem palette_decoding_witness:
  "\<exists>pa. read_palette_buffer
       (sample_parser\<lparr>parser.file := \<lparr>content = [10, 20, 30, 40, 50, 60, 70, 80], read_calls = 11\<rparr>\<rparr>) =
       (Inr (),
        sample_parser\<lparr>parser.file := \<lparr>content = [], read_calls = 19\<rparr>, parser.palette := pa\<rparr>)
     \<and> shape pa = [2, 4]
     \<and> array_get pa [1, 2] = Inr (Item (F64_of_int 70))"
proof -
  let ?ps = "sample_parser\<lparr>parser.file := \<lparr>content = [10, 20, 30, 40, 50, 60, 70, 80], read_calls = 11\<rparr>\<rparr>"
  have n: "parser.num_of_pallette_colors ?ps = int 2"
    and c: "parser.num_of_color_channels ?ps = int 4"
    and bpc: "parser.bytes_per_channel ?ps = int 1"
    and ty: "parser.color_channel_data_type ?ps = color_channel_data_types ! nat 0"
    and f: "parser.file ?ps = \<lparr>content = [10, 20, 30, 40, 50, 60, 70, 80], read_calls = 11\<rparr>"
    by (simp_all add: sample_parser_def XRawVolumeParser_init_def color_channel_data_types_def)
  have m: "(1 :: nat) \<in> {1, 2, 4}" and t: "(0 :: int) \<le> 0" "(0 :: int) < 3"
    and big: "8 * (max 1 2 * max 1 4) < (2 :: nat) ^ 63"
    and enough: "2 * 4 * 1 \<le> length [10, 20, 30, 40, 50, 60, 70, 80 :: byte]"
    by simp_all
  from palette_decoding [OF n c bpc m t ty big f enough] obtain pa where
    run: "read_palette_buffer ?ps =
           (Inr (),
            ?ps\<lparr>parser.file := \<lparr>content = drop (2 * 4 * 1) [10, 20, 30, 40, 50, 60, 70, 80],
                    read_calls = 11 + 2 * 4\<rparr>,
               parser.palette := pa\<rparr>)"
    and sh: "shape pa = [2, 4]"
    and cells: "\<forall>i<2. \<forall>c<4.
              length (take 1 (drop ((i * 4 + c) * 1) [10, 20, 30, 40, 50, 60, 70, 80 :: byte])) = 1
              \<and> length (take 1 (drop ((i * 4 + c) * 1) [10, 20, 30, 40, 50, 60, 70, 80 :: byte])
                   @ replicate (4 - 1) 0) = 4
              \<and> array_get pa [i, c] =
                 Inr (Item
                   (let v = int_from_bytes
                        (take 1 (drop ((i * 4 + c) * 1) [10, 20, 30, 40, 50, 60, 70, 80])
                          @ replicate (4 - 1) 0)
                    in if (0 :: int) = 0 then F64_of_int v
                       else if (0 :: int) = 1 then F64_of_int (if v < 2 ^ 31 then v else v - 2 ^ 32)
                       else F64_of_f32 (word_of_int v)))"
    by (elim exE conjE) (rule that; assumption)
  have three: "replicate 3 x = [x, x, x]" for x :: byte
    by (simp add: numeral_3_eq_3)
  from cells [rule_format, of 1 2] have "array_get pa [1, 2] = Inr (Item (F64_of_int 70))"
    by (simp add: three)
  with run sh show ?thesis
    by (intro exI [of _ pa]) simp
qed


subsection \<open>From nested lists to a file\<close>

lemma length_concat_uniform:
  "(\<And>ys. ys \<in> set xss \<Longrightarrow> length ys = p) \<Longrightarrow> length (concat xss) = length xss * p"
  by (induction xss) auto

lemma list_shape_length:
  "list_shape l = Some sh \<Longrightarrow> length (leaves l) = prod_list sh"
proof (induction l arbitrary: sh)
  case (Leaf v)
  then show ?case by simp
next
  case (Lst xs)
  show ?case
  proof (cases xs)
    case Nil
    with Lst.prems show ?thesis by auto
  next
    case (Cons x ys)
    with Lst.prems obtain sh' where
      x: "list_shape x = Some sh'" and ys: "\<forall>y \<in> set ys. list_shape y = Some sh'"
      and sh: "sh = Suc (length ys) # sh'"
      by (auto split: option.splits if_splits)
    have "length (leaves y) = prod_list sh'" if "y \<in> set xs" for y
      using that x ys Cons Lst.IH [of y sh'] by auto
    then have "length (concat (map leaves xs)) = length (map leaves xs) * prod_list sh'"
      by (intro length_concat_uniform) auto
    with sh Cons show ?thesis
      by simp
  qed
qed

lemma promote_ints:
  assumes "\<forall>x \<in> set xs. \<exists>v. x = PyInt v \<and> - (2 ^ 63) \<le> v \<and> v < 2 ^ 63"
  shows "promote xs = xs"
proof -
  from assms have "\<forall>x \<in> set xs. kind_of x = KLong"
    by auto
  then have "KObject \<notin> set (map kind_of xs)" "KFloat \<notin> set (map kind_of xs)"
    "KULongLong \<notin> set (map kind_of xs)"
    by auto
  then show ?thesis
    by (simp add: promote_def Let_def)
qed

lemma init_nested:
  assumes vs: "list_shape vl = Some [W, H, D]" and ps: "list_shape pl = Some [N, C]"
  shows "XRawVolumeWriter_init (PyNested vl) (PyNested pl) =
     Inr \<lparr>voxels = \<lparr>shape = [W, H, D], items = promote (leaves vl)\<rparr>,
          palette = \<lparr>shape = [N, C], items = promote (leaves pl)\<rparr>,
          format_string = ''XRAW'',
          color_channel_data_type = CHR ''I'', bytes_per_channel = 1, bytes_per_index = 1,
          width = int W, height = int H, depth = int D,
          num_of_pallette_colors = int N, num_of_color_channels = int C,
          file = None\<rparr>"
  using assms
  by (simp add: XRawVolumeWriter_init_def or_raise_def ne_None_def np_array_def shape_get_def
      color_channel_data_types_def)

lemma write_file_result:
  assumes fmt: "writer.format_string w0 = ''XRAW''"
    and ty: "writer.color_channel_data_type w0 = CHR ''I''"
    and bpc: "writer.bytes_per_channel w0 = 1" and bpi: "writer.bytes_per_index w0 = 1"
    and vsh: "shape (writer.voxels w0) = [W, H, D]"
    and psh: "shape (writer.palette w0) = [N, C]"
    and w: "writer.width w0 = int W" and h: "writer.height w0 = int H"
    and d: "writer.depth w0 = int D"
    and n: "writer.num_of_pallette_colors w0 = int N"
    and c: "writer.num_of_color_channels w0 = int C"
    and sz: "W < 2 ^ 32" "H < 2 ^ 32" "D < 2 ^ 32" "N < 2 ^ 32" and ch: "C < 256"
    and vok: "\<And>x y z. x < W \<Longrightarrow> y < H \<Longrightarrow> z < D \<Longrightarrow>
       byte_of_item (Item (items (writer.voxels w0) ! ((x * H + y) * D + z))) =
         Inr (vcell ((z * H + y) * W + x))"
    and pok: "\<And>k. k < N * C \<Longrightarrow>
       byte_of_item (Item (items (writer.palette w0) ! k)) = Inr (pcell k)"
  shows "\<exists>w1. write_file filepath w0 = (Inr (), w1)
     \<and> file_bytes w1 =
        ([88, 82, 65, 87]
         @ [0, word_of_int (int C), 8, 8]
         @ le_bytes 4 (int W) @ le_bytes 4 (int H) @ le_bytes 4 (int D) @ le_bytes 4 (int N))
        @ map vcell [0..<D * H * W] @ map pcell [0..<N * C]
     \<and> writer.file w1 =
         Some \<lparr>path = filepath, written = file_bytes w1, closed = True\<rparr>"
proof -
  let ?s1 = "w0\<lparr>writer.file := Some \<lparr>path = filepath, written = [], closed = False\<rparr>\<rparr>"
  let ?hdr = "[88, 82, 65, 87]
         @ [0, word_of_int (int C), 8, 8]
         @ le_bytes 4 (int W) @ le_bytes 4 (int H) @ le_bytes 4 (int D) @ le_bytes 4 (int N)"
  have op: "is_open ?s1"
    by (simp add: is_open_def)
  have idx: "list_index color_channel_data_types (writer.color_channel_data_type ?s1) = Inr 0"
    using ty by (simp add: color_channel_data_types_def)
  have hdr: "write_header ?s1 = (Inr (), appended ?hdr ?s1)"
    using write_header_result [OF op _ idx, of ] fmt bpc bpi w h d n c sz ch
    by (simp del: le_bytes.simps)
  have vox: "write_voxels (appended ?hdr ?s1) =
      (Inr (), appended (map vcell [0..<D * H * W]) (appended ?hdr ?s1))"
    by (rule write_voxels_result [where W = W and H = H and D = D])
       (simp_all add: op vsh w h d vok del: le_bytes.simps)
  have pal: "write_palette (appended (?hdr @ map vcell [0..<D * H * W]) ?s1) =
      (Inr (), appended (map pcell [0..<N * C]) (appended (?hdr @ map vcell [0..<D * H * W]) ?s1))"
    by (rule write_palette_result [where N = N and C = C])
       (simp_all add: op psh n c pok del: le_bytes.simps)
  let ?all = "?hdr @ map vcell [0..<D * H * W] @ map pcell [0..<N * C]"
  have run: "write_file filepath w0 =
      file_close (appended ?all ?s1)"
    unfolding write_file_def using hdr vox pal
    by (simp add: seq_def modify_def del: le_bytes.simps)
  have "file_close (appended ?all ?s1) =
      (Inr (), ?s1\<lparr>writer.file := Some \<lparr>path = filepath, written = ?all, closed = True\<rparr>\<rparr>)"
    by (simp add: file_close_def appended_def del: le_bytes.simps)
  with run show ?thesis
    by (simp add: file_bytes_def del: le_bytes.simps)
qed


subsection \<open>Parsing a written file\<close>

lemma length_le_bytes [simp]: "length (le_bytes k n) = k"
  by (induction k arbitrary: n) simp_all

lemma uint_byte_of_int:
  assumes "0 \<le> v" and "v < 256"
  shows "uint (word_of_int v :: byte) = v"
  using assms by (simp add: uint_word_of_int take_bit_eq_mod)

lemma sint_byte_of_int:
  assumes "0 \<le> v" and "v < 128"
  shows "sint (word_of_int v :: byte) = v"
  using assms by (simp add: sint_uint uint_word_of_int take_bit_eq_mod signed_take_bit_eq_if_positive
      bit_iff_odd)

lemma int_from_bytes_le_bytes:
  assumes "0 \<le> n" and "n < 256 ^ k"
  shows "int_from_bytes (le_bytes k n) = n"
  using assms
proof (induction k arbitrary: n)
  case 0
  then show ?case by simp
next
  case (Suc k)
  from Suc.prems have "0 \<le> n div 256" "n div 256 < 256 ^ k"
    by (simp_all add: div_less_iff_less_mult mult.commute [of 256])
  with Suc.IH have "int_from_bytes (le_bytes k (n div 256)) = n div 256"
    by simp
  moreover have "uint (word_of_int (n mod 256) :: byte) = n mod 256"
    by (rule uint_byte_of_int) simp_all
  ultimately show ?case
    by simp
qed

lemma four_bytes:
  assumes "length bs = 4"
  obtains b0 b1 b2 b3 where "bs = [b0, b1, b2, b3]"
  using assms by (auto simp: length_Suc_conv eval_nat_numeral)

lemma read_remaining_bytes_empty:
  assumes "content (parser.file s) = []"
  shows "read_remaining_bytes s =
     (Inr (),
      s\<lparr>parser.remaining_bytes := [],
        parser.file := \<lparr>content = [], read_calls = Suc (read_calls (parser.file s))\<rparr>\<rparr>)"
  using assms
  by (simp add: read_remaining_bytes_def seq_def modify_def file_read_def
      read_remaining_loop.simps)

lemma assemble_data_run:
  "assemble_data use_lists s =
     (Inr [(''width'', DInt (parser.width s)), (''height'', DInt (parser.height s)),
           (''depth'', DInt (parser.depth s)),
           (''num_of_pallette_colors'', DInt (parser.num_of_pallette_colors s)),
           (''voxels'', if use_lists then DList (tolist (parser.voxels s))
                        else DArray (parser.voxels s)),
           (''palette'', if use_lists then DList (tolist (parser.palette s))
                         else DArray (parser.palette s))],
      s\<lparr>parser.data := Some
          [(''width'', DInt (parser.width s)), (''height'', DInt (parser.height s)),
           (''depth'', DInt (parser.depth s)),
           (''num_of_pallette_colors'', DInt (parser.num_of_pallette_colors s)),
           (''voxels'', if use_lists then DList (tolist (parser.voxels s))
                        else DArray (parser.voxels s)),
           (''palette'', if use_lists then DList (tolist (parser.palette s))
                         else DArray (parser.palette s))]\<rparr>)"
  unfolding assemble_data_def
  by (cases use_lists)
     (simp_all add: seq_def modify_def dict_set_def dict_tolist_def return_def to_list_def)


lemma take_one_drop:
  assumes "k < length bs"
  shows "take 1 (drop k bs) = [bs ! k]"
proof -
  from assms have "drop k bs = bs ! k # drop (Suc k) bs"
    by (simp add: Cons_nth_drop_Suc)
  then show ?thesis
    by simp
qed

lemma parse_written_layout:
  assumes lv: "length vb = D * H * W" and lp: "length pb = N * C"
    and sz: "W < 2 ^ 32" "H < 2 ^ 32" "D < 2 ^ 32" "N < 2 ^ 32" and ch: "C < 128"
    and big: "8 * (max 1 W * max 1 H * max 1 D) < 2 ^ 63"
  shows "\<exists>va pa s'.
     parse use_lists (XRawVolumeParser_init
       (([88, 82, 65, 87] @ [0, word_of_int (int C), 8, 8]
          @ le_bytes 4 (int W) @ le_bytes 4 (int H) @ le_bytes 4 (int D) @ le_bytes 4 (int N))
        @ vb @ pb)) =
       (Inr [(''width'', DInt (int W)), (''height'', DInt (int H)), (''depth'', DInt (int D)),
             (''num_of_pallette_colors'', DInt (int N)),
             (''voxels'', if use_lists then DList (tolist va) else DArray va),
             (''palette'', if use_lists then DList (tolist pa) else DArray pa)], s')
     \<and> shape va = [W, H, D] \<and> shape pa = [N, C]
     \<and> length (items va) = W * H * D \<and> length (items pa) = N * C
     \<and> (\<forall>x<W. \<forall>y<H. \<forall>z<D.
          array_get va [x, y, z] = Inr (Item (F64_of_int (uint (vb ! ((z * H + y) * W + x))))))
     \<and> (\<forall>i<N. \<forall>c<C.
          array_get pa [i, c] = Inr (Item (F64_of_int (uint (pb ! (i * C + c))))))"
proof -
  obtain w0 w1 w2 w3 where wb: "le_bytes 4 (int W) = [w0, w1, w2, w3]"
    by (rule four_bytes [of "le_bytes 4 (int W)"]) simp
  obtain h0 h1 h2 h3 where hb: "le_bytes 4 (int H) = [h0, h1, h2, h3]"
    by (rule four_bytes [of "le_bytes 4 (int H)"]) simp
  obtain d0 d1 d2 d3 where db: "le_bytes 4 (int D) = [d0, d1, d2, d3]"
    by (rule four_bytes [of "le_bytes 4 (int D)"]) simp
  obtain n0 n1 n2 n3 where nb: "le_bytes 4 (int N) = [n0, n1, n2, n3]"
    by (rule four_bytes [of "le_bytes 4 (int N)"]) simp
  have num: "int_from_bytes (le_bytes 4 (int k)) = int k" if "k < 2 ^ 32" for k :: nat
  proof (rule int_from_bytes_le_bytes)
    show "0 \<le> int k" by simp
    from that have "int k < 2 ^ 32"
      by (metis of_nat_less_iff of_nat_numeral of_nat_power)
    then show "int k < 256 ^ 4" by simp
  qed
  let ?src = "([88, 82, 65, 87] @ [0, word_of_int (int C), 8, 8]
          @ le_bytes 4 (int W) @ le_bytes 4 (int H) @ le_bytes 4 (int D) @ le_bytes 4 (int N))
        @ vb @ pb"
  let ?s0 = "XRawVolumeParser_init ?src"
  let ?s1 = "?s0\<lparr>parser.file := \<lparr>content = vb @ pb, read_calls = read_calls (parser.file ?s0) + 9\<rparr>,
        parser.color_channel_data_type := CHR ''I'',
        parser.num_of_color_channels := sint (word_of_int (int C) :: byte),
        parser.bytes_per_channel := sint (8 :: byte) div 8,
        parser.bytes_per_index := sint (8 :: byte) div 8,
        parser.width := int_from_bytes [w0, w1, w2, w3],
        parser.height := int_from_bytes [h0, h1, h2, h3],
        parser.depth := int_from_bytes [d0, d1, d2, d3],
        parser.num_of_pallette_colors := int_from_bytes [n0, n1, n2, n3]\<rparr>"
  have src: "content (parser.file ?s0) =
      [88, 82, 65, 87] @ [0, word_of_int (int C), 8, 8] @ [w0, w1, w2, w3] @ [h0, h1, h2, h3]
        @ [d0, d1, d2, d3] @ [n0, n1, n2, n3] @ (vb @ pb)"
    by (simp add: XRawVolumeParser_init_def wb hb db nb del: le_bytes.simps)
  have ty: "list_get color_channel_data_types (sint (0 :: byte)) = Inr (CHR ''I'')"
    by (simp add: list_get_def color_channel_data_types_def)
  have hd: "read_header ?s0 = (Inr (), ?s1)"
    by (rule read_header_result [OF src ty])
  have f1: "parser.width ?s1 = int W" "parser.height ?s1 = int H" "parser.depth ?s1 = int D"
    "parser.num_of_pallette_colors ?s1 = int N"
    using num [OF sz(1)] num [OF sz(2)] num [OF sz(3)] num [OF sz(4)]
    by (simp_all add: wb hb db nb del: int_from_bytes.simps)
  have f1': "parser.num_of_color_channels ?s1 = int C" "parser.bytes_per_channel ?s1 = int 1"
    "parser.bytes_per_index ?s1 = int 1" "parser.color_channel_data_type ?s1 = CHR ''I''"
    "parser.file ?s1 = \<lparr>content = vb @ pb, read_calls = 9\<rparr>"
    using ch sint_byte_of_int [of "int C"]
    by (simp_all add: XRawVolumeParser_init_def)
  have nb: "(1 :: nat) \<le> 127"
    by simp
  from read_voxel_buffer_result [OF f1(1-3) f1'(3) nb big f1'(5)] obtain vits where
    rv: "read_voxel_buffer ?s1 =
       (Inr (),
        ?s1\<lparr>parser.file := \<lparr>content = drop (D * H * W * 1) (vb @ pb), read_calls = 9 + D * H * W\<rparr>,
          parser.voxels := \<lparr>shape = [W, H, D], items = vits\<rparr>\<rparr>)"
    and vlen: "length vits = W * H * D"
    and vcells: "\<forall>x<W. \<forall>y<H. \<forall>z<D.
          vits ! ((x * H + y) * D + z) =
            float64_of_int (int_from_bytes (take 1 (drop (((z * H + y) * W + x) * 1) (vb @ pb))))"
    by blast
  let ?va = "\<lparr>shape = [W, H, D], items = vits\<rparr>"
  let ?s2 = "?s1\<lparr>parser.file := \<lparr>content = pb, read_calls = 9 + D * H * W\<rparr>,
          parser.voxels := ?va\<rparr>"
  from rv lv have rv': "read_voxel_buffer ?s1 = (Inr (), ?s2)"
    by simp
  have one: "float64_of_int (int_from_bytes (take 1 (drop k bs))) = F64_of_int (uint (bs ! k))"
    if "k < length bs" for k and bs :: "byte list"
  proof -
    from that have "take 1 (drop k bs) = [bs ! k]"
      by (rule take_one_drop)
    moreover have "\<bar>uint (bs ! k)\<bar> < 2 ^ 53"
      using uint_bounded [of "bs ! k"] by simp
    ultimately show ?thesis
      by (simp add: float64_of_int_exact)
  qed
  have vget: "array_get ?va [x, y, z] = Inr (Item (F64_of_int (uint (vb ! ((z * H + y) * W + x)))))"
    if xyz: "x < W" "y < H" "z < D" for x y z
  proof -
    have k: "(z * H + y) * W + x < length vb"
      using index3_less [OF xyz(3,2,1)] lv by simp
    then have "float64_of_int (int_from_bytes (take 1 (drop ((z * H + y) * W + x) (vb @ pb)))) =
        F64_of_int (uint ((vb @ pb) ! ((z * H + y) * W + x)))"
      by (intro one) simp
    with vcells xyz k have "vits ! ((x * H + y) * D + z) =
        F64_of_int (uint (vb ! ((z * H + y) * W + x)))"
      by (simp add: nth_append)
    with array_get_3 [of ?va W H D x y z] xyz show ?thesis
      by simp
  qed
  have f2: "parser.num_of_pallette_colors ?s2 = int N" "parser.num_of_color_channels ?s2 = int C"
    "parser.bytes_per_channel ?s2 = int 1" "parser.color_channel_data_type ?s2 = CHR ''I''"
    "parser.file ?s2 = \<lparr>content = pb, read_calls = 9 + D * H * W\<rparr>"
    using f1 f1' by simp_all
  have pok: "unpack_channel (CHR ''I'') (take 1 (drop (k * 1) pb) @ zero_bytes (4 - int 1)) =
      Inr (F64_of_int (uint (pb ! k)))"
    if "k < N * C" for k
  proof -
    from that lp have "take 1 (drop k pb) = [pb ! k]"
      by (intro take_one_drop) simp
    moreover have "zero_bytes 3 = [0, 0, 0]"
      by (simp add: zero_bytes_def numeral_3_eq_3)
    moreover have "\<bar>uint (pb ! k)\<bar> < 2 ^ 53"
      using uint_bounded [of "pb ! k"] by simp
    ultimately show ?thesis
      by (simp add: unpack_channel_def unpack_I_def float64_of_int_exact)
  qed
  have "max 1 N * max 1 C \<le> 2 ^ 32 * 128"
    using sz(4) ch by (intro mult_mono) auto
  then have "8 * (max 1 N * max 1 C) \<le> 8 * (2 ^ 32 * 128)"
    by (rule mult_le_mono2)
  also have "\<dots> < 2 ^ 63"
    by simp
  finally have pbig: "8 * (max 1 N * max 1 C) < 2 ^ 63" .
  from read_palette_buffer_result [OF f2(1,2,3,4) pbig f2(5) pok] obtain pits where
    rp: "read_palette_buffer ?s2 =
       (Inr (),
        ?s2\<lparr>parser.file := \<lparr>content = drop (N * C * 1) pb, read_calls = 9 + D * H * W + N * C\<rparr>,
          parser.palette := \<lparr>shape = [N, C], items = pits\<rparr>\<rparr>)"
    and plen: "length pits = N * C"
    and pcells: "\<forall>i<N. \<forall>c<C. pits ! (i * C + c) = F64_of_int (uint (pb ! (i * C + c)))"
    by blast
  let ?pa = "\<lparr>shape = [N, C], items = pits\<rparr>"
  let ?s3 = "?s2\<lparr>parser.file := \<lparr>content = [], read_calls = 9 + D * H * W + N * C\<rparr>,
          parser.palette := ?pa\<rparr>"
  from rp lp have rp': "read_palette_buffer ?s2 = (Inr (), ?s3)"
    by simp
  have pget: "array_get ?pa [i, c] = Inr (Item (F64_of_int (uint (pb ! (i * C + c)))))"
    if "i < N" "c < C" for i c
    using array_get_2 [of ?pa N C i c] that pcells by simp
  let ?s4 = "?s3\<lparr>parser.remaining_bytes := [],
        parser.file := \<lparr>content = [], read_calls = Suc (9 + D * H * W + N * C)\<rparr>\<rparr>"
  have rr: "read_remaining_bytes ?s3 = (Inr (), ?s4)"
    using read_remaining_bytes_empty [of ?s3] by simp
  have f4: "parser.width ?s4 = int W" "parser.height ?s4 = int H" "parser.depth ?s4 = int D"
    "parser.num_of_pallette_colors ?s4 = int N" "parser.voxels ?s4 = ?va" "parser.palette ?s4 = ?pa"
    using f1 by simp_all
  have nt: "\<not> truthy (parser.data ?s0)"
    by (simp add: XRawVolumeParser_init_def truthy_def)
  have "parse use_lists ?s0 = assemble_data use_lists ?s4"
    unfolding parse_def using nt
    by (simp only: if_False seq_Inr [where m = read_header, OF hd]
        seq_Inr [where m = read_voxel_buffer, OF rv']
        seq_Inr [where m = read_palette_buffer, OF rp']
        seq_Inr [where m = read_remaining_bytes, OF rr])
  then have "\<exists>s'. parse use_lists ?s0 =
       (Inr [(''width'', DInt (int W)), (''height'', DInt (int H)), (''depth'', DInt (int D)),
             (''num_of_pallette_colors'', DInt (int N)),
             (''voxels'', if use_lists then DList (tolist ?va) else DArray ?va),
             (''palette'', if use_lists then DList (tolist ?pa) else DArray ?pa)], s')"
    by (simp only: assemble_data_run f4) blast
  with vget pget vlen plen show ?thesis
    by (intro exI [of _ ?va] exI [of _ ?pa]) auto
qed


subsection \<open>Nested lists and arrays\<close>

lemma concat_nth_uniform:
  assumes "\<And>ys. ys \<in> set xss \<Longrightarrow> length ys = p" and "i < length xss" and "j < p"
  shows "concat xss ! (i * p + j) = xss ! i ! j"
  using assms
proof (induction xss arbitrary: i)
  case Nil
  then show ?case by simp
next
  case (Cons ys xss)
  from Cons.prems(1) have len: "length ys = p"
    by simp
  show ?case
  proof (cases i)
    case 0
    with len Cons.prems(3) show ?thesis
      by (simp add: nth_append)
  next
    case (Suc k)
    with Cons.prems have "concat xss ! (k * p + j) = xss ! k ! j"
      by (intro Cons.IH) auto
    with Suc len show ?thesis
      by (simp add: nth_append)
  qed
qed

lemma flat_index_less:
  assumes "list_all2 (<) is sh"
  shows "flat_index sh is < prod_list sh"
  using assms
proof (induction "is" sh rule: list_all2_induct)
  case Nil
  then show ?case by simp
next
  case (Cons i "is" n sh)
  from mixed_radix_less [OF Cons.hyps(1) Cons.IH] show ?case
    by (simp add: mult.commute)
qed

lemma pylist_get_leaves:
  assumes "list_shape l = Some sh" and "list_all2 (<) is sh"
  shows "pylist_get l is = Inr (Leaf (leaves l ! flat_index sh is))"
  using assms
proof (induction l arbitrary: sh "is")
  case (Leaf v)
  then show ?case by simp
next
  case (Lst xs)
  show ?case
  proof (cases xs)
    case Nil
    with Lst.prems show ?thesis
      by (auto simp: list_all2_Cons2)
  next
    case (Cons x ys)
    with Lst.prems(1) obtain sh' where
      x: "list_shape x = Some sh'" and ys: "\<forall>y \<in> set ys. list_shape y = Some sh'"
      and sh: "sh = length xs # sh'"
      by (auto split: option.splits if_splits)
    from Lst.prems(2) sh obtain i js where
      ij: "is = i # js" "i < length xs" "list_all2 (<) js sh'"
      by (auto simp: list_all2_Cons2)
    have all: "list_shape y = Some sh'" if "y \<in> set xs" for y
      using that x ys Cons by auto
    from ij(2) have mem: "xs ! i \<in> set xs"
      by simp
    have "pylist_get (xs ! i) js = Inr (Leaf (leaves (xs ! i) ! flat_index sh' js))"
      by (rule Lst.IH [OF mem all [OF mem] ij(3)])
    moreover have "concat (map leaves xs) ! (i * prod_list sh' + flat_index sh' js) =
        map leaves xs ! i ! flat_index sh' js"
    proof (rule concat_nth_uniform)
      fix zs assume "zs \<in> set (map leaves xs)"
      then show "length zs = prod_list sh'"
        using all list_shape_length by auto
    next
      show "i < length (map leaves xs)"
        using ij(2) by simp
      show "flat_index sh' js < prod_list sh'"
        by (rule flat_index_less [OF ij(3)])
    qed
    ultimately show ?thesis
      using ij sh by simp
  qed
qed

lemma pylist_get_3:
  assumes "list_shape l = Some [W, H, D]" and "x < W" and "y < H" and "z < D"
  shows "pylist_get l [x, y, z] = Inr (Leaf (leaves l ! ((x * H + y) * D + z)))"
  using pylist_get_leaves [OF assms(1), of "[x, y, z]"] assms(2-4)
  by (simp add: algebra_simps)

lemma pylist_get_2:
  assumes "list_shape l = Some [N, C]" and "i < N" and "c < C"
  shows "pylist_get l [i, c] = Inr (Leaf (leaves l ! (i * C + c)))"
  using pylist_get_leaves [OF assms(1), of "[i, c]"] assms(2-3)
  by simp

lemma pylist_get_unflatten:
  assumes "length its = prod_list sh" and "list_all2 (<) is sh"
  shows "pylist_get (unflatten sh its) is = Inr (Leaf (its ! flat_index sh is))"
  using assms(2,1)
proof (induction "is" sh arbitrary: its rule: list_all2_induct)
  case Nil
  then show ?case
    by (cases its) simp_all
next
  case (Cons i "is" n sh)
  let ?p = "prod_list sh"
  let ?chunk = "take ?p (drop (i * ?p) its)"
  from Cons.hyps(1) have "Suc i * ?p \<le> n * ?p"
    by (intro mult_le_mono1) simp
  with Cons.prems have fits: "i * ?p + ?p \<le> length its"
    by simp
  then have len: "length ?chunk = ?p"
    by simp
  have j: "flat_index sh is < ?p"
    by (rule flat_index_less [OF Cons.hyps(2)])
  from Cons.IH [OF len] have "pylist_get (unflatten sh ?chunk) is =
      Inr (Leaf (?chunk ! flat_index sh is))" .
  also from j fits have "?chunk ! flat_index sh is = its ! (i * ?p + flat_index sh is)"
    by simp
  finally show ?case
    using Cons.hyps(1) by simp
qed

lemma tolist_get_3:
  assumes "shape a = [W, H, D]" and "length (items a) = W * H * D"
    and "x < W" and "y < H" and "z < D"
  shows "pylist_get (tolist a) [x, y, z] = Inr (Leaf (items a ! ((x * H + y) * D + z)))"
  using pylist_get_unflatten [of "items a" "[W, H, D]" "[x, y, z]"] assms
  by (simp add: tolist_def algebra_simps del: unflatten.simps)

lemma tolist_get_2:
  assumes "shape a = [N, C]" and "length (items a) = N * C" and "i < N" and "c < C"
  shows "pylist_get (tolist a) [i, c] = Inr (Leaf (items a ! (i * C + c)))"
  using pylist_get_unflatten [of "items a" "[N, C]" "[i, c]"] assms
  by (simp add: tolist_def del: unflatten.simps)


subsection \<open>The round trip\<close>

text \<open>
  Claim C1, amended. Let the voxels be a nested list of shape \<open>W \<times> H \<times> D\<close> and the palette
  a nested list of shape \<open>N \<times> C\<close>, both of Python integers between 0 and 255, with at
  most 127 channels for a colour, with \<open>W\<close>, \<open>H\<close>, \<open>D\<close> and \<open>N\<close> below \<open>2^32\<close>, and with a voxel
  grid that numpy can allocate when the file is parsed (8 bytes for each cell fit a
  signed 64-bit size, an extent of 0 counting as 1 there). Then the constructor accepts
  them, \<open>write_file\<close> succeeds, and \<open>parse\<close> on the bytes of the file
  written returns a dictionary with the same width, height, depth and number of
  palette colours, whose voxel array has at every \<open>[x][y][z]\<close>, and whose palette has at
  every \<open>[i][c]\<close>, the float64 with the value of the integer that the supplied list has
  there; with \<open>use_lists\<close> the lists returned have these same numbers at these places.
\<close>

theorem write_then_parse:
  assumes vs: "list_shape vl = Some [W, H, D]" and ps: "list_shape pl = Some [N, C]"
    and vr: "\<forall>x \<in> set (leaves vl). \<exists>v. x = PyInt v \<and> 0 \<le> v \<and> v \<le> 255"
    and pr: "\<forall>x \<in> set (leaves pl). \<exists>v. x = PyInt v \<and> 0 \<le> v \<and> v \<le> 255"
    and sz: "W < 2 ^ 32" "H < 2 ^ 32" "D < 2 ^ 32" "N < 2 ^ 32" and ch: "C \<le> 127"
    and big: "8 * (max 1 W * max 1 H * max 1 D) < 2 ^ 63"
  shows "\<exists>w0 w1 va pa s'.
      XRawVolumeWriter_init (PyNested vl) (PyNested pl) = Inr w0
    \<and> write_file filepath w0 = (Inr (), w1)
    \<and> parse use_lists (XRawVolumeParser_init (file_bytes w1)) =
        (Inr [(''width'', DInt (int W)), (''height'', DInt (int H)), (''depth'', DInt (int D)),
              (''num_of_pallette_colors'', DInt (int N)),
              (''voxels'', if use_lists then DList (tolist va) else DArray va),
              (''palette'', if use_lists then DList (tolist pa) else DArray pa)], s')
    \<and> shape va = [W, H, D] \<and> shape pa = [N, C]
    \<and> (\<forall>x<W. \<forall>y<H. \<forall>z<D. \<exists>v.
          pylist_get vl [x, y, z] = Inr (Leaf (PyInt v))
          \<and> array_get va [x, y, z] = Inr (Item (F64_of_int v))
          \<and> pylist_get (tolist va) [x, y, z] = Inr (Leaf (F64_of_int v)))
    \<and> (\<forall>i<N. \<forall>c<C. \<exists>v.
          pylist_get pl [i, c] = Inr (Leaf (PyInt v))
          \<and> array_get pa [i, c] = Inr (Item (F64_of_int v))
          \<and> pylist_get (tolist pa) [i, c] = Inr (Leaf (F64_of_int v)))"
proof -
  let ?vox = "\<lparr>shape = [W, H, D], items = leaves vl\<rparr>"
  let ?pal = "\<lparr>shape = [N, C], items = leaves pl\<rparr>"
  let ?w0 = "\<lparr>voxels = ?vox, palette = ?pal, format_string = ''XRAW'',
          color_channel_data_type = CHR ''I'', bytes_per_channel = 1, bytes_per_index = 1,
          width = int W, height = int H, depth = int D,
          num_of_pallette_colors = int N, num_of_color_channels = int C,
          file = None\<rparr>"
  from vr have vr': "\<forall>x \<in> set (leaves vl). \<exists>v. x = PyInt v \<and> - (2 ^ 63) \<le> v \<and> v < 2 ^ 63"
    by fastforce
  from pr have pr': "\<forall>x \<in> set (leaves pl). \<exists>v. x = PyInt v \<and> - (2 ^ 63) \<le> v \<and> v < 2 ^ 63"
    by fastforce
  have init: "XRawVolumeWriter_init (PyNested vl) (PyNested pl) = Inr ?w0"
    using init_nested [OF vs ps] promote_ints [OF vr'] promote_ints [OF pr'] by simp
  define vint where "vint j = (case leaves vl ! j of PyInt v \<Rightarrow> v | _ \<Rightarrow> 0)" for j
  define pint where "pint j = (case leaves pl ! j of PyInt v \<Rightarrow> v | _ \<Rightarrow> 0)" for j
  define vcell :: "nat \<Rightarrow> byte" where
    "vcell k = word_of_int (vint (((k mod W) * H + (k div W) mod H) * D + k div W div H))" for k
  define pcell :: "nat \<Rightarrow> byte" where "pcell k = word_of_int (pint k)" for k
  have vlen: "length (leaves vl) = W * H * D"
    using list_shape_length [OF vs] by simp
  have plen: "length (leaves pl) = N * C"
    using list_shape_length [OF ps] by simp
  have vleaf: "leaves vl ! j = PyInt (vint j) \<and> 0 \<le> vint j \<and> vint j \<le> 255"
    if "j < W * H * D" for j
  proof -
    from that vlen have "leaves vl ! j \<in> set (leaves vl)"
      by simp
    with vr show ?thesis
      by (auto simp: vint_def)
  qed
  have pleaf: "leaves pl ! j = PyInt (pint j) \<and> 0 \<le> pint j \<and> pint j \<le> 255"
    if "j < N * C" for j
  proof -
    from that plen have "leaves pl ! j \<in> set (leaves pl)"
      by simp
    with pr show ?thesis
      by (auto simp: pint_def)
  qed
  have vok: "byte_of_item (Item (items (writer.voxels ?w0) ! ((x * H + y) * D + z))) =
         Inr (vcell ((z * H + y) * W + x))"
    if xyz: "x < W" "y < H" "z < D" for x y z
    using vleaf [OF index3_less [OF xyz]] xyz by (simp add: vcell_def)
  have pok: "byte_of_item (Item (items (writer.palette ?w0) ! k)) = Inr (pcell k)"
    if "k < N * C" for k
    using pleaf [OF that] by (simp add: pcell_def)
  let ?vb = "map vcell [0..<D * H * W]"
  let ?pb = "map pcell [0..<N * C]"
  from ch have ch': "C < 256" "C < 128"
    by simp_all
  have "\<exists>w1. write_file filepath ?w0 = (Inr (), w1)
     \<and> file_bytes w1 =
        ([88, 82, 65, 87]
         @ [0, word_of_int (int C), 8, 8]
         @ le_bytes 4 (int W) @ le_bytes 4 (int H) @ le_bytes 4 (int D) @ le_bytes 4 (int N))
        @ ?vb @ ?pb
     \<and> writer.file w1 =
         Some \<lparr>path = filepath, written = file_bytes w1, closed = True\<rparr>"
    by (rule write_file_result [where W = W and H = H and D = D and N = N and C = C])
       (use sz ch' vok pok in simp_all)
  then obtain w1 where wr: "write_file filepath ?w0 = (Inr (), w1)"
    and bytes: "file_bytes w1 =
        ([88, 82, 65, 87]
         @ [0, word_of_int (int C), 8, 8]
         @ le_bytes 4 (int W) @ le_bytes 4 (int H) @ le_bytes 4 (int D) @ le_bytes 4 (int N))
        @ ?vb @ ?pb"
    by blast
  have "\<exists>va pa s'.
     parse use_lists (XRawVolumeParser_init (file_bytes w1)) =
       (Inr [(''width'', DInt (int W)), (''height'', DInt (int H)), (''depth'', DInt (int D)),
             (''num_of_pallette_colors'', DInt (int N)),
             (''voxels'', if use_lists then DList (tolist va) else DArray va),
             (''palette'', if use_lists then DList (tolist pa) else DArray pa)], s')
     \<and> shape va = [W, H, D] \<and> shape pa = [N, C]
     \<and> length (items va) = W * H * D \<and> length (items pa) = N * C
     \<and> (\<forall>x<W. \<forall>y<H. \<forall>z<D.
          array_get va [x, y, z] = Inr (Item (F64_of_int (uint (?vb ! ((z * H + y) * W + x))))))
     \<and> (\<forall>i<N. \<forall>c<C.
          array_get pa [i, c] = Inr (Item (F64_of_int (uint (?pb ! (i * C + c))))))"
    unfolding bytes by (rule parse_written_layout) (use sz ch' big in simp_all)
  then obtain va pa s' where
    run: "parse use_lists (XRawVolumeParser_init (file_bytes w1)) =
       (Inr [(''width'', DInt (int W)), (''height'', DInt (int H)), (''depth'', DInt (int D)),
             (''num_of_pallette_colors'', DInt (int N)),
             (''voxels'', if use_lists then DList (tolist va) else DArray va),
             (''palette'', if use_lists then DList (tolist pa) else DArray pa)], s')"
    and sh: "shape va = [W, H, D]" "shape pa = [N, C]"
    and ln: "length (items va) = W * H * D" "length (items pa) = N * C"
    and vcells: "\<forall>x<W. \<forall>y<H. \<forall>z<D.
          array_get va [x, y, z] = Inr (Item (F64_of_int (uint (?vb ! ((z * H + y) * W + x)))))"
    and pcells: "\<forall>i<N. \<forall>c<C.
          array_get pa [i, c] = Inr (Item (F64_of_int (uint (?pb ! (i * C + c)))))"
    by (elim exE conjE) (rule that; assumption)
  have v: "\<exists>v. pylist_get vl [x, y, z] = Inr (Leaf (PyInt v))
          \<and> array_get va [x, y, z] = Inr (Item (F64_of_int v))
          \<and> pylist_get (tolist va) [x, y, z] = Inr (Leaf (F64_of_int v))"
    if xyz: "x < W" "y < H" "z < D" for x y z
  proof -
    let ?j = "(x * H + y) * D + z"
    note leaf = vleaf [OF index3_less [OF xyz]]
    have k: "(z * H + y) * W + x < D * H * W"
      by (rule index3_less [OF xyz(3,2,1)])
    have "uint (vcell ((z * H + y) * W + x)) = vint ?j"
      using leaf xyz by (simp add: vcell_def uint_byte_of_int)
    with vcells xyz k have g: "array_get va [x, y, z] = Inr (Item (F64_of_int (vint ?j)))"
      by simp
    with array_get_3 [OF sh(1) xyz] have "items va ! ?j = F64_of_int (vint ?j)"
      by simp
    with tolist_get_3 [OF sh(1) ln(1) xyz]
    have "pylist_get (tolist va) [x, y, z] = Inr (Leaf (F64_of_int (vint ?j)))"
      by simp
    moreover have "pylist_get vl [x, y, z] = Inr (Leaf (PyInt (vint ?j)))"
      using pylist_get_3 [OF vs xyz] leaf by simp
    ultimately show ?thesis
      using g by blast
  qed
  have p: "\<exists>v. pylist_get pl [i, c] = Inr (Leaf (PyInt v))
          \<and> array_get pa [i, c] = Inr (Item (F64_of_int v))
          \<and> pylist_get (tolist pa) [i, c] = Inr (Leaf (F64_of_int v))"
    if ic: "i < N" "c < C" for i c
  proof -
    let ?j = "i * C + c"
    have k: "?j < N * C"
      by (rule mixed_radix_less [OF ic])
    note leaf = pleaf [OF k]
    have "uint (pcell ?j) = pint ?j"
      using leaf by (simp add: pcell_def uint_byte_of_int)
    with pcells ic k have g: "array_get pa [i, c] = Inr (Item (F64_of_int (pint ?j)))"
      by simp
    with array_get_2 [OF sh(2) ic] have "items pa ! ?j = F64_of_int (pint ?j)"
      by simp
    with tolist_get_2 [OF sh(2) ln(2) ic]
    have "pylist_get (tolist pa) [i, c] = Inr (Leaf (F64_of_int (pint ?j)))"
      by simp
    moreover have "pylist_get pl [i, c] = Inr (Leaf (PyInt (pint ?j)))"
      using pylist_get_2 [OF ps ic] leaf by simp
    ultimately show ?thesis
      using g by blast
  qed
  from init wr run sh v p show ?thesis
    by (intro exI [of _ ?w0] exI [of _ w1] exI [of _ va] exI [of _ pa] exI [of _ s']) simp
qed


theorem write_then_parse_witness:
  "\<exists>w0 w1 va pa s'.
      XRawVolumeWriter_init (PyNested sample_voxels) (PyNested sample_palette) = Inr w0
    \<and> write_file ''out.xraw'' w0 = (Inr (), w1)
    \<and> parse False (XRawVolumeParser_init (file_bytes w1)) =
        (Inr [(''width'', DInt 2), (''height'', DInt 1), (''depth'', DInt 1),
              (''num_of_pallette_colors'', DInt 2),
              (''voxels'', DArray va), (''palette'', DArray pa)], s')
    \<and> array_get va [0, 0, 0] = Inr (Item (F64_of_int 1))
    \<and> array_get va [1, 0, 0] = Inr (Item (F64_of_int 2))
    \<and> array_get pa [1, 0] = Inr (Item (F64_of_int 50))
    \<and> array_get pa [1, 3] = Inr (Item (F64_of_int 80))"
proof -
  have vs: "list_shape sample_voxels = Some [2, 1, 1]"
    and ps: "list_shape sample_palette = Some [2, 4]"
    by (simp_all add: sample_voxels_def sample_palette_def int_list_def)
  have lv: "leaves sample_voxels = [PyInt 1, PyInt 2]"
    and lp: "leaves sample_palette =
      [PyInt 10, PyInt 20, PyInt 30, PyInt 40, PyInt 50, PyInt 60, PyInt 70, PyInt 80]"
    by (simp_all add: sample_voxels_def sample_palette_def int_list_def)
  have vr: "\<forall>x \<in> set (leaves sample_voxels). \<exists>v. x = PyInt v \<and> 0 \<le> v \<and> v \<le> 255"
    and pr: "\<forall>x \<in> set (leaves sample_palette). \<exists>v. x = PyInt v \<and> 0 \<le> v \<and> v \<le> 255"
    by (simp_all add: lv lp)
  have sz: "(2 :: nat) < 2 ^ 32" "(1 :: nat) < 2 ^ 32" and ch: "(4 :: nat) \<le> 127"
    and big: "8 * (max 1 2 * max 1 1 * max 1 1) < (2 :: nat) ^ 63"
    by simp_all
  from write_then_parse [OF vs ps vr pr sz(1) sz(2) sz(2) sz(1) ch big, of "''out.xraw''" False]
  obtain w0 w1 va pa s' where
    init: "XRawVolumeWriter_init (PyNested sample_voxels) (PyNested sample_palette) = Inr w0"
    and wr: "write_file ''out.xraw'' w0 = (Inr (), w1)"
    and run: "parse False (XRawVolumeParser_init (file_bytes w1)) =
        (Inr [(''width'', DInt (int 2)), (''height'', DInt (int 1)), (''depth'', DInt (int 1)),
              (''num_of_pallette_colors'', DInt (int 2)),
              (''voxels'', if False then DList (tolist va) else DArray va),
              (''palette'', if False then DList (tolist pa) else DArray pa)], s')"
    and v: "\<forall>x<2. \<forall>y<1. \<forall>z<1. \<exists>v.
          pylist_get sample_voxels [x, y, z] = Inr (Leaf (PyInt v))
          \<and> array_get va [x, y, z] = Inr (Item (F64_of_int v))
          \<and> pylist_get (tolist va) [x, y, z] = Inr (Leaf (F64_of_int v))"
    and p: "\<forall>i<2. \<forall>c<4. \<exists>v.
          pylist_get sample_palette [i, c] = Inr (Leaf (PyInt v))
          \<and> array_get pa [i, c] = Inr (Item (F64_of_int v))
          \<and> pylist_get (tolist pa) [i, c] = Inr (Leaf (F64_of_int v))"
    by (elim exE conjE) (rule that; assumption)
  have gv: "pylist_get sample_voxels [0, 0, 0] = Inr (Leaf (PyInt 1))"
    "pylist_get sample_voxels [1, 0, 0] = Inr (Leaf (PyInt 2))"
    by (simp_all add: sample_voxels_def int_list_def)
  have gp: "pylist_get sample_palette [1, 0] = Inr (Leaf (PyInt 50))"
    "pylist_get sample_palette [1, 3] = Inr (Leaf (PyInt 80))"
    by (simp_all add: sample_palette_def int_list_def)
  from v [rule_format, of 0 0 0] gv(1) have v0: "array_get va [0, 0, 0] = Inr (Item (F64_of_int 1))"
    by simp
  from v [rule_format, of 1 0 0] gv(2) have v1: "array_get va [1, 0, 0] = Inr (Item (F64_of_int 2))"
    by simp
  from p [rule_format, of 1 0] gp(1) have p0: "array_get pa [1, 0] = Inr (Item (F64_of_int 50))"
    by simp
  from p [rule_format, of 1 3] gp(2) have p3: "array_get pa [1, 3] = Inr (Item (F64_of_int 80))"
    by simp
  from init wr run v0 v1 p0 p3 show ?thesis
    by (intro exI [of _ w0] exI [of _ w1] exI [of _ va] exI [of _ pa] exI [of _ s']) simp
qed


subsection \<open>Values that do not fit a byte\<close>

text \<open>A loop whose body either succeeds, keeping \<open>J\<close> and establishing \<open>G i\<close>, or raises
  \<open>err\<close>, either succeeds with \<open>G\<close> for every element or raises \<open>err\<close>.\<close>

lemma for_loop_dichotomy:
  assumes "J s"
    and "\<And>i s. i \<in> set xs \<Longrightarrow> J s \<Longrightarrow>
       (\<exists>s'. body i s = (Inr (), s') \<and> J s' \<and> G i) \<or> (\<exists>s'. body i s = (Inl err, s'))"
  shows "(\<exists>s'. for_loop xs body s = (Inr (), s') \<and> J s' \<and> (\<forall>i \<in> set xs. G i))
       \<or> (\<exists>s'. for_loop xs body s = (Inl err, s'))"
  using assms
proof (induction xs arbitrary: s)
  case Nil
  then show ?case by simp
next
  case (Cons i xs)
  from Cons.prems(2) [of i s] Cons.prems(1)
  consider s' where "body i s = (Inr (), s')" "J s'" "G i" | s' where "body i s = (Inl err, s')"
    by auto
  then show ?case
  proof cases
    case 1
    from Cons.IH [OF 1(2)] Cons.prems(2)
    have "(\<exists>s''. for_loop xs body s' = (Inr (), s'') \<and> J s'' \<and> (\<forall>i \<in> set xs. G i))
       \<or> (\<exists>s''. for_loop xs body s' = (Inl err, s''))"
      by simp
    with 1 show ?thesis
      by auto
  next
    case 2
    then show ?thesis
      by simp
  qed
qed

lemma index3_decompose:
  fixes j :: nat
  assumes "j < W * H * D"
  obtains x y z where "x < W" "y < H" "z < D" "j = (x * H + y) * D + z"
proof -
  from assms have D: "0 < D" and H: "0 < H"
    by (auto intro: gr0I)
  let ?q = "j div D"
  from assms have q: "?q < W * H"
    by (simp add: less_mult_imp_div_less)
  show ?thesis
  proof (rule that [of "?q div H" "?q mod H" "j mod D"])
    from q show "?q div H < W"
      by (simp add: less_mult_imp_div_less)
    from H show "?q mod H < H"
      by simp
    from D show "j mod D < D"
      by simp
    show "j = (?q div H * H + ?q mod H) * D + j mod D"
      by simp
  qed
qed

lemma index2_decompose:
  fixes k :: nat
  assumes "k < N * C"
  obtains i c where "i < N" "c < C" "k = i * C + c"
proof -
  from assms have C: "0 < C"
    by (auto intro: gr0I)
  show ?thesis
  proof (rule that [of "k div C" "k mod C"])
    from assms show "k div C < N"
      by (simp add: less_mult_imp_div_less)
    from C show "k mod C < C"
      by simp
    show "k = k div C * C + k mod C"
      by simp
  qed
qed

lemma byte_of_int_cases:
  "(\<exists>b. byte_of_item (Item (PyInt v)) = Inr b)
   \<or> byte_of_item (Item (PyInt v)) = Inl (ValueError ''bytes must be in range(0, 256)'')"
  by simp

lemma byte_of_int_valid:
  "(\<exists>b. byte_of_item (Item (PyInt v)) = Inr b) \<longleftrightarrow> 0 \<le> v \<and> v \<le> 255"
  by auto

lemma write_voxels_dichotomy:
  assumes op: "is_open s" and sh: "shape (writer.voxels s) = [W, H, D]"
    and w: "writer.width s = int W" and h: "writer.height s = int H"
    and d: "writer.depth s = int D"
    and ints: "\<And>j. j < W * H * D \<Longrightarrow> \<exists>v. items (writer.voxels s) ! j = PyInt v"
  shows "(\<exists>bs. write_voxels s = (Inr (), appended bs s)
           \<and> (\<forall>z<D. \<forall>y<H. \<forall>x<W.
                \<exists>b. byte_of_item (Item (items (writer.voxels s) ! ((x * H + y) * D + z))) = Inr b))
       \<or> (\<exists>s'. write_voxels s = (Inl (ValueError ''bytes must be in range(0, 256)''), s'))"
proof -
  let ?e = "ValueError ''bytes must be in range(0, 256)''"
  define J where "J t \<longleftrightarrow> (\<exists>bs. t = appended bs s)" for t
  define G where "G z y x \<longleftrightarrow>
    (\<exists>b. byte_of_item (Item (items (writer.voxels s) ! ((x * H + y) * D + z))) = Inr b)" for x y z
  have J0: "J s"
    unfolding J_def by (rule exI [of _ "[]"]) simp
  have step: "(\<exists>t'. write_voxel z y x t = (Inr (), t') \<and> J t' \<and> G z y x)
       \<or> (\<exists>t'. write_voxel z y x t = (Inl ?e, t'))"
    if xyz: "x < W" "y < H" "z < D" and J: "J t" for x y z t
  proof -
    from J obtain bs where t: "t = appended bs s"
      by (auto simp: J_def)
    from ints [OF index3_less [OF xyz]] obtain v where
      v: "items (writer.voxels s) ! ((x * H + y) * D + z) = PyInt v"
      by blast
    have get: "array_get (writer.voxels t) [x, y, z] = Inr (Item (PyInt v))"
      using array_get_3 [of "writer.voxels t" W H D x y z] xyz sh v by (simp add: t)
    have opt: "is_open t"
      using op by (simp add: t)
    from byte_of_int_cases [of v] show ?thesis
    proof
      assume "\<exists>b. byte_of_item (Item (PyInt v)) = Inr b"
      then obtain b where b: "byte_of_item (Item (PyInt v)) = Inr b"
        by blast
      then have "py_bytes [Item (PyInt v)] = Inr [b]"
        by simp
      from write_bytes_open [OF opt this] get
      have "write_voxel z y x t = (Inr (), appended [b] t)"
        by (simp add: write_voxel_def seq_def lift_def)
      moreover have "J (appended [b] t)"
        unfolding J_def t by (rule exI [of _ "bs @ [b]"]) simp
      moreover from b v have "G z y x"
        by (auto simp: G_def)
      ultimately show ?thesis
        by blast
    next
      assume "byte_of_item (Item (PyInt v)) = Inl ?e"
      then have "py_bytes [Item (PyInt v)] = Inl ?e"
        by simp
      from write_bytes_fails [OF opt this] get
      have "write_voxel z y x t = (Inl ?e, t)"
        by (simp add: write_voxel_def seq_def lift_def)
      then show ?thesis
        by blast
    qed
  qed
  have dims: "writer.width t = int W \<and> writer.height t = int H" if "J t" for t
    using that w h by (auto simp: J_def)
  have inner: "(\<exists>t'. for_loop (py_range (writer.width t)) (\<lambda>x. write_voxel z y x) t = (Inr (), t')
          \<and> J t' \<and> (\<forall>x<W. G z y x))
       \<or> (\<exists>t'. for_loop (py_range (writer.width t)) (\<lambda>x. write_voxel z y x) t = (Inl ?e, t'))"
    if yz: "y < H" "z < D" and J: "J t" for y z t
    using for_loop_dichotomy [where J = J and G = "G z y" and body = "\<lambda>x. write_voxel z y x"
        and err = "ValueError ''bytes must be in range(0, 256)''" and s = t and xs = "[0..<W]", OF J] step [OF _ yz] dims [OF J]
    by (simp add: py_range_def Ball_def)
  have middle: "(\<exists>t'. for_loop (py_range (writer.height t)) (\<lambda>y t.
            for_loop (py_range (writer.width t)) (\<lambda>x. write_voxel z y x) t) t = (Inr (), t')
          \<and> J t' \<and> (\<forall>y<H. \<forall>x<W. G z y x))
       \<or> (\<exists>t'. for_loop (py_range (writer.height t)) (\<lambda>y t.
            for_loop (py_range (writer.width t)) (\<lambda>x. write_voxel z y x) t) t = (Inl ?e, t'))"
    if z: "z < D" and J: "J t" for z t
    using for_loop_dichotomy [where J = J and G = "\<lambda>y. \<forall>x<W. G z y x"
        and body = "\<lambda>y t. for_loop (py_range (writer.width t)) (\<lambda>x. write_voxel z y x) t"
        and err = "ValueError ''bytes must be in range(0, 256)''" and s = t and xs = "[0..<H]", OF J] inner [OF _ z] dims [OF J]
    by (simp add: py_range_def Ball_def)
  have "(\<exists>t'. write_voxels s = (Inr (), t') \<and> J t' \<and> (\<forall>z<D. \<forall>y<H. \<forall>x<W. G z y x))
       \<or> (\<exists>t'. write_voxels s = (Inl ?e, t'))"
    unfolding write_voxels_def
    using for_loop_dichotomy [where J = J and G = "\<lambda>z. \<forall>y<H. \<forall>x<W. G z y x"
        and body = "\<lambda>z t. for_loop (py_range (writer.height t)) (\<lambda>y t.
            for_loop (py_range (writer.width t)) (\<lambda>x. write_voxel z y x) t) t"
        and err = "ValueError ''bytes must be in range(0, 256)''" and s = s and xs = "[0..<D]", OF J0] middle d
    by (simp add: py_range_def Ball_def)
  then show ?thesis
    by (auto simp: J_def G_def)
qed

lemma write_palette_dichotomy:
  assumes op: "is_open s" and sh: "shape (writer.palette s) = [N, C]"
    and n: "writer.num_of_pallette_colors s = int N"
    and c: "writer.num_of_color_channels s = int C"
    and ints: "\<And>j. j < N * C \<Longrightarrow> \<exists>v. items (writer.palette s) ! j = PyInt v"
  shows "(\<exists>bs. write_palette s = (Inr (), appended bs s)
           \<and> (\<forall>i<N. \<forall>c<C.
                \<exists>b. byte_of_item (Item (items (writer.palette s) ! (i * C + c))) = Inr b))
       \<or> (\<exists>s'. write_palette s = (Inl (ValueError ''bytes must be in range(0, 256)''), s'))"
proof -
  let ?e = "ValueError ''bytes must be in range(0, 256)''"
  define J where "J t \<longleftrightarrow> (\<exists>bs. t = appended bs s)" for t
  define G where "G i c \<longleftrightarrow>
    (\<exists>b. byte_of_item (Item (items (writer.palette s) ! (i * C + c))) = Inr b)" for i c
  have J0: "J s"
    unfolding J_def by (rule exI [of _ "[]"]) simp
  have step: "(\<exists>t'. write_channel i c t = (Inr (), t') \<and> J t' \<and> G i c)
       \<or> (\<exists>t'. write_channel i c t = (Inl ?e, t'))"
    if ic: "i < N" "c < C" and J: "J t" for i c t
  proof -
    from J obtain bs where t: "t = appended bs s"
      by (auto simp: J_def)
    from ints [OF mixed_radix_less [OF ic]] obtain v where
      v: "items (writer.palette s) ! (i * C + c) = PyInt v"
      by blast
    have get: "array_get (writer.palette t) [i, c] = Inr (Item (PyInt v))"
      using array_get_2 [of "writer.palette t" N C i c] ic sh v by (simp add: t)
    have opt: "is_open t"
      using op by (simp add: t)
    from byte_of_int_cases [of v] show ?thesis
    proof
      assume "\<exists>b. byte_of_item (Item (PyInt v)) = Inr b"
      then obtain b where b: "byte_of_item (Item (PyInt v)) = Inr b"
        by blast
      then have "py_bytes [Item (PyInt v)] = Inr [b]"
        by simp
      from write_bytes_open [OF opt this] get
      have "write_channel i c t = (Inr (), appended [b] t)"
        by (simp add: write_channel_def seq_def lift_def)
      moreover have "J (appended [b] t)"
        unfolding J_def t by (rule exI [of _ "bs @ [b]"]) simp
      moreover from b v have "G i c"
        by (auto simp: G_def)
      ultimately show ?thesis
        by blast
    next
      assume "byte_of_item (Item (PyInt v)) = Inl ?e"
      then have "py_bytes [Item (PyInt v)] = Inl ?e"
        by simp
      from write_bytes_fails [OF opt this] get
      have "write_channel i c t = (Inl ?e, t)"
        by (simp add: write_channel_def seq_def lift_def)
      then show ?thesis
        by blast
    qed
  qed
  have dims: "writer.num_of_color_channels t = int C" if "J t" for t
    using that c by (auto simp: J_def)
  have inner: "(\<exists>t'. for_loop (py_range (writer.num_of_color_channels t)) (\<lambda>c. write_channel i c) t
            = (Inr (), t') \<and> J t' \<and> (\<forall>c<C. G i c))
       \<or> (\<exists>t'. for_loop (py_range (writer.num_of_color_channels t)) (\<lambda>c. write_channel i c) t
            = (Inl ?e, t'))"
    if i: "i < N" and J: "J t" for i t
    using for_loop_dichotomy [where J = J and G = "G i" and body = "\<lambda>c. write_channel i c"
        and err = "ValueError ''bytes must be in range(0, 256)''" and s = t and xs = "[0..<C]", OF J] step [OF i] dims [OF J]
    by (simp add: py_range_def Ball_def)
  have "(\<exists>t'. write_palette s = (Inr (), t') \<and> J t' \<and> (\<forall>i<N. \<forall>c<C. G i c))
       \<or> (\<exists>t'. write_palette s = (Inl ?e, t'))"
    unfolding write_palette_def
    using for_loop_dichotomy [where J = J and G = "\<lambda>i. \<forall>c<C. G i c"
        and body = "\<lambda>i t. for_loop (py_range (writer.num_of_color_channels t))
            (\<lambda>c. write_channel i c) t"
        and err = "ValueError ''bytes must be in range(0, 256)''" and s = s and xs = "[0..<N]", OF J0] inner n
    by (simp add: py_range_def Ball_def)
  then show ?thesis
    by (auto simp: J_def G_def)
qed


lemma write_header_too_many_channels:
  assumes op: "is_open s" and fmt: "writer.format_string s = ''XRAW''"
    and ty: "writer.color_channel_data_type s = CHR ''I''"
    and c: "256 \<le> writer.num_of_color_channels s"
  shows "\<exists>s'. write_header s = (Inl (ValueError ''bytes must be in range(0, 256)''), s')"
proof -
  from op obtain f where f: "writer.file s = Some f"
    by (auto simp: is_open_def split: option.splits)
  have magic: "write_bytes (bytes_items (str_encode ''XRAW'')) s = (Inr (), appended [88, 82, 65, 87] s)"
    using write_bytes_open [OF op py_bytes_bytes_items, of "str_encode ''XRAW''"]
    by (simp add: str_encode_def)
  have zero: "write_bytes [int_item 0] (appended [88, 82, 65, 87] s) =
      (Inr (), appended [88, 82, 65, 87, 0] s)"
    using write_bytes_int [of "appended [88, 82, 65, 87] s" 0] op by simp
  have "py_bytes [int_item (writer.num_of_color_channels s)] =
      Inl (ValueError ''bytes must be in range(0, 256)'')"
    using c by (simp add: int_item_def)
  then have bad: "write_bytes [int_item (writer.num_of_color_channels s)]
      (appended [88, 82, 65, 87, 0] s) =
      (Inl (ValueError ''bytes must be in range(0, 256)''), appended [88, 82, 65, 87, 0] s)"
    using write_bytes_fails [of "appended [88, 82, 65, 87, 0] s"] op by simp
  show ?thesis
    unfolding write_header_def using f fmt ty magic zero bad
    by (simp add: seq_def get_color_channel_data_type_index_def lift_def
        color_channel_data_types_def)
qed

text \<open>
  Claim C9, amended. Let the voxels be a nested list of shape \<open>W \<times> H \<times> D\<close> and the palette
  a nested list of shape \<open>N \<times> C\<close>, both of Python integers that fit 64 bits signed, with
  \<open>W\<close>, \<open>H\<close>, \<open>D\<close> and \<open>N\<close> below \<open>2^32\<close>. When one of the integers is negative or greater than 255, the
  constructor accepts the lists and \<open>write_file\<close> raises
  \<open>ValueError("bytes must be in range(0, 256)")\<close>: no value is narrowed to its low byte.
\<close>

theorem write_file_out_of_range:
  assumes vs: "list_shape vl = Some [W, H, D]" and ps: "list_shape pl = Some [N, C]"
    and ints: "\<forall>x \<in> set (leaves vl) \<union> set (leaves pl).
        \<exists>v. x = PyInt v \<and> - (2 ^ 63) \<le> v \<and> v < 2 ^ 63"
    and bad: "\<exists>x \<in> set (leaves vl) \<union> set (leaves pl). \<exists>v. x = PyInt v \<and> (v < 0 \<or> 255 < v)"
    and sz: "W < 2 ^ 32" "H < 2 ^ 32" "D < 2 ^ 32" "N < 2 ^ 32"
  shows "\<exists>w0 w1.
      XRawVolumeWriter_init (PyNested vl) (PyNested pl) = Inr w0
    \<and> write_file filepath w0 = (Inl (ValueError ''bytes must be in range(0, 256)''), w1)"
proof -
  let ?e = "ValueError ''bytes must be in range(0, 256)''"
  let ?vox = "\<lparr>shape = [W, H, D], items = leaves vl\<rparr>"
  let ?pal = "\<lparr>shape = [N, C], items = leaves pl\<rparr>"
  let ?w0 = "\<lparr>voxels = ?vox, palette = ?pal, format_string = ''XRAW'',
          color_channel_data_type = CHR ''I'', bytes_per_channel = 1, bytes_per_index = 1,
          width = int W, height = int H, depth = int D,
          num_of_pallette_colors = int N, num_of_color_channels = int C,
          file = None\<rparr>"
  from ints have iv: "\<forall>x \<in> set (leaves vl). \<exists>v. x = PyInt v \<and> - (2 ^ 63) \<le> v \<and> v < 2 ^ 63"
    and ip: "\<forall>x \<in> set (leaves pl). \<exists>v. x = PyInt v \<and> - (2 ^ 63) \<le> v \<and> v < 2 ^ 63"
    by auto
  have init: "XRawVolumeWriter_init (PyNested vl) (PyNested pl) = Inr ?w0"
    using init_nested [OF vs ps] promote_ints [OF iv] promote_ints [OF ip] by simp
  have vlen: "length (leaves vl) = W * H * D"
    using list_shape_length [OF vs] by simp
  have plen: "length (leaves pl) = N * C"
    using list_shape_length [OF ps] by simp
  let ?s1 = "?w0\<lparr>writer.file := Some \<lparr>path = filepath, written = [], closed = False\<rparr>\<rparr>"
  have op: "is_open ?s1"
    by (simp add: is_open_def)
  have start: "write_file filepath ?w0 =
      seq write_header (\<lambda>_. seq write_voxels (\<lambda>_. seq write_palette (\<lambda>_. file_close))) ?s1"
    by (simp add: write_file_def seq_def modify_def)
  have "\<exists>w1. write_file filepath ?w0 = (Inl ?e, w1)"
  proof (cases "C < 256")
    case False
    then have "256 \<le> writer.num_of_color_channels ?s1"
      by simp
    from write_header_too_many_channels [OF op _ _ this]
    obtain s' where "write_header ?s1 = (Inl ?e, s')"
      by auto
    then show ?thesis
      unfolding start by (simp add: seq_def)
  next
    case True
    let ?hdr = "[88, 82, 65, 87]
         @ [0, word_of_int (int C), 8, 8]
         @ le_bytes 4 (int W) @ le_bytes 4 (int H) @ le_bytes 4 (int D) @ le_bytes 4 (int N)"
    have idx: "list_index color_channel_data_types (writer.color_channel_data_type ?s1) = Inr 0"
      by (simp add: color_channel_data_types_def)
    have hdr: "write_header ?s1 = (Inr (), appended ?hdr ?s1)"
      using write_header_result [OF op _ idx] sz True
      by (simp del: le_bytes.simps)
    let ?s2 = "appended ?hdr ?s1"
    have vints: "\<exists>v. items (writer.voxels ?s2) ! j = PyInt v" if "j < W * H * D" for j
    proof -
      from that vlen have "leaves vl ! j \<in> set (leaves vl)"
        by simp
      with ints show ?thesis
        by auto
    qed
    have pints: "\<exists>v. items (writer.palette s) ! j = PyInt v"
      if "j < N * C" "writer.palette s = ?pal" for j s
    proof -
      from that plen have "leaves pl ! j \<in> set (leaves pl)"
        by simp
      with ints that show ?thesis
        by auto
    qed
    from write_voxels_dichotomy [of ?s2 W H D, OF _ _ _ _ _ vints]
    consider bs where "write_voxels ?s2 = (Inr (), appended bs ?s2)"
        "\<forall>z<D. \<forall>y<H. \<forall>x<W.
           \<exists>b. byte_of_item (Item (items (writer.voxels ?s2) ! ((x * H + y) * D + z))) = Inr b"
      | s' where "write_voxels ?s2 = (Inl ?e, s')"
      using op by (auto simp del: le_bytes.simps)
    then show ?thesis
    proof cases
      case 2
      with hdr show ?thesis
        unfolding start by (simp add: seq_def del: le_bytes.simps)
    next
      case 1
      let ?s3 = "appended bs ?s2"
      from write_palette_dichotomy [of ?s3 N C, OF _ _ _ _ pints]
      consider cs where "write_palette ?s3 = (Inr (), appended cs ?s3)"
          "\<forall>i<N. \<forall>c<C.
             \<exists>b. byte_of_item (Item (items (writer.palette ?s3) ! (i * C + c))) = Inr b"
        | s' where "write_palette ?s3 = (Inl ?e, s')"
        using op by (auto simp del: le_bytes.simps)
      then show ?thesis
      proof cases
        case 2
        with hdr 1(1) show ?thesis
          unfolding start by (simp add: seq_def del: le_bytes.simps)
      next
        case p: 1
        from bad obtain x v where x: "x \<in> set (leaves vl) \<union> set (leaves pl)"
          and v: "x = PyInt v" "v < 0 \<or> 255 < v"
          by blast
        from x have False
        proof
          assume "x \<in> set (leaves vl)"
          then obtain j where j: "j < W * H * D" "leaves vl ! j = x"
            using vlen by (auto simp: in_set_conv_nth)
          from j(1) obtain a b c where abc: "a < W" "b < H" "c < D" "j = (a * H + b) * D + c"
            by (rule index3_decompose)
          from 1(2) abc(1-3) have "\<exists>b'. byte_of_item
              (Item (items (writer.voxels ?s2) ! ((a * H + b) * D + c))) = Inr b'"
            by blast
          with abc(4) j(2) v(1) have "\<exists>b. byte_of_item (Item (PyInt v)) = Inr b"
            by (simp del: le_bytes.simps byte_of_item.simps)
          with v(2) show False
            unfolding byte_of_int_valid by linarith
        next
          assume "x \<in> set (leaves pl)"
          then obtain j where j: "j < N * C" "leaves pl ! j = x"
            using plen by (auto simp: in_set_conv_nth)
          from j(1) obtain a b where ab: "a < N" "b < C" "j = a * C + b"
            by (rule index2_decompose)
          from p(2) ab(1,2) have "\<exists>b'. byte_of_item
              (Item (items (writer.palette ?s3) ! (a * C + b))) = Inr b'"
            by blast
          with ab(3) j(2) v(1) have "\<exists>b. byte_of_item (Item (PyInt v)) = Inr b"
            by (simp del: le_bytes.simps byte_of_item.simps)
          with v(2) show False
            unfolding byte_of_int_valid by linarith
        qed
        then show ?thesis ..
      qed
    qed
  qed
  with init show ?thesis
    by blast
qed

theorem write_file_out_of_range_witness:
  "\<exists>w0 w1.
      XRawVolumeWriter_init voxels_256 palette_1x1 = Inr w0
    \<and> write_file ''out.xraw'' w0 = (Inl (ValueError ''bytes must be in range(0, 256)''), w1)"
proof -
  have vs: "list_shape (Lst [Lst [int_list [256]]]) = Some [1, 1, 1]"
    and ps: "list_shape (Lst [int_list [0]]) = Some [1, 1]"
    by (simp_all add: int_list_def)
  have ints: "\<forall>x \<in> set (leaves (Lst [Lst [int_list [256]]])) \<union> set (leaves (Lst [int_list [0]])).
      \<exists>v. x = PyInt v \<and> - (2 ^ 63) \<le> v \<and> v < 2 ^ 63"
    by (simp add: int_list_def)
  have bad: "\<exists>x \<in> set (leaves (Lst [Lst [int_list [256]]])) \<union> set (leaves (Lst [int_list [0]])).
      \<exists>v. x = PyInt v \<and> (v < 0 \<or> 255 < v)"
    by (simp add: int_list_def)
  have sz: "(1 :: nat) < 2 ^ 32"
    by simp
  from write_file_out_of_range [OF vs ps ints bad sz sz sz sz, of "''out.xraw''"]
  show ?thesis
    by (simp add: voxels_256_def palette_1x1_def)
qed


end
